theory Spec2Isabelle
  imports Complex_Main "HOL-Library.Char_ord" "HOL-Library.List_Lexorder"
    "HOL-Library.Product_Lexorder" "HOL-Library.Sublist" "HOL-Library.Multiset"
begin

section \<open>Values of the upstream library and Python's builtins\<close>

text \<open>
  A stat's \<open>value\<close> attribute is loosely typed. The model keeps the kinds of value
  that main.py tells apart: Python's \<open>None\<close>, a number, a string, and an \<open>APIAttr\<close>
  object, of which the code only asks whether its \<open>__dict__\<close> is empty (\<open>VAttr True\<close> is
  an \<open>APIAttr\<close> that carries attributes, \<open>VAttr False\<close> an empty one). \<open>VNum r\<close> is an
  int or a finite float of the exact value \<open>r\<close>: every finite double is a rational
  number. \<open>VInf neg\<close> is the float infinity (\<open>neg\<close> for the negative one) and \<open>VNaN\<close> the
  float NaN. The two zeros of the doubles are not told apart.
\<close>

datatype pyval = VNone | VNum real | VInf bool | VNaN | VStr string | VAttr bool

datatype error = TypeError | ValueError | OverflowError | ZeroDivisionError | IndexError

text \<open>Truthiness (\<open>if val\<close>): \<open>None\<close>, \<open>0\<close> and the empty string are falsy; an object
  without \<open>__bool__\<close> or \<open>__len__\<close> is truthy.\<close>

fun truthy :: "pyval \<Rightarrow> bool" where
  "truthy VNone = False"
| "truthy (VNum r) = (r \<noteq> 0)"
| "truthy (VInf neg) = True"
| "truthy VNaN = True"
| "truthy (VStr s) = (s \<noteq> [])"
| "truthy (VAttr b) = True"

subsection \<open>Double precision\<close>

text \<open>
  A finite double is \<open>m * 2 ^ q\<close> with \<open>\<bar>m\<bar> < 2 ^ 53\<close> and \<open>- 1074 \<le> q \<le> 971\<close>.
  \<open>round_double\<close> is the rounding of IEEE 754 to the nearest double, ties to the even
  mantissa, which Python applies to the exact result of every float operation, to the
  text it parses and to the int it converts; a result of magnitude \<open>2 ^ 1024\<close> or more
  is an infinity.
\<close>

definition pow2 :: "int \<Rightarrow> real" where
  "pow2 k = (if 0 \<le> k then 2 ^ nat k else 1 / 2 ^ nat (- k))"

definition round_half_even :: "real \<Rightarrow> int" where
  "round_half_even x =
     (let f = \<lfloor>x\<rfloor>; d = x - of_int f
      in if d < 1 / 2 then f else if 1 / 2 < d then f + 1
         else if even f then f else f + 1)"

text \<open>The binade of \<open>a > 0\<close>: the \<open>e\<close> with \<open>2 ^ e \<le> a < 2 ^ (e + 1)\<close>, found from a
  guess \<open>k\<close> and kept between \<open>- 1022\<close>, below which the doubles are subnormal and
  equally spaced, and \<open>1024\<close>, from which on they overflow. The first argument bounds
  the number of steps; \<open>1100\<close> steps reach every binade from the guess \<open>0\<close>.\<close>

fun binade :: "nat \<Rightarrow> real \<Rightarrow> int \<Rightarrow> int" where
  "binade 0 a k = k"
| "binade (Suc n) a k =
     (if a < pow2 k then (if k \<le> - 1022 then - 1022 else binade n a (k - 1))
      else if pow2 (k + 1) \<le> a then (if 1023 \<le> k then 1024 else binade n a (k + 1))
      else k)"

definition round_double :: "real \<Rightarrow> pyval" where
  "round_double x =
     (if x = 0 then VNum 0
      else
        let a = \<bar>x\<bar>; e = binade 1100 a 0; m = round_half_even (a / pow2 (e - 52))
        in if 1024 \<le> e \<or> (e = 1023 \<and> 2 ^ 53 \<le> m) then VInf (x < 0)
           else VNum ((if x < 0 then - 1 else 1) * (of_int m * pow2 (e - 52))))"

text \<open>The floats among the values, and their order: NaN compares false with
  everything, the infinities lie below and above the finite floats.\<close>

fun is_float :: "pyval \<Rightarrow> bool" where
  "is_float (VNum r) = True"
| "is_float (VInf neg) = True"
| "is_float VNaN = True"
| "is_float _ = False"

fun float_key :: "pyval \<Rightarrow> int \<times> real" where
  "float_key (VNum r) = (0, r)"
| "float_key (VInf neg) = (if neg then - 1 else 1, 0)"
| "float_key _ = (0, 0)"

definition flt :: "pyval \<Rightarrow> pyval \<Rightarrow> bool" where
  "flt a b = (a \<noteq> VNaN \<and> b \<noteq> VNaN \<and> float_key a < float_key b)"

definition fge :: "pyval \<Rightarrow> pyval \<Rightarrow> bool" where
  "fge a b = (a \<noteq> VNaN \<and> b \<noteq> VNaN \<and> float_key b \<le> float_key a)"

text \<open>The division of a float by a positive finite float \<open>d\<close>.\<close>

fun fdiv :: "pyval \<Rightarrow> real \<Rightarrow> pyval" where
  "fdiv (VNum x) d = round_double (x / d)"
| "fdiv v d = v"

subsection \<open>\<open>str.lower()\<close> on ASCII text\<close>

definition lower_char :: "char \<Rightarrow> char" where
  "lower_char c =
     (if CHR ''A'' \<le> c \<and> c \<le> CHR ''Z'' then char_of (of_char c + (32::nat)) else c)"

definition lower :: "string \<Rightarrow> string" where
  "lower s = map lower_char s"

subsection \<open>Text to number: \<open>int()\<close> and \<open>float()\<close> on ASCII text\<close>

definition is_space :: "char \<Rightarrow> bool" where
  "is_space c = (c \<in> set [CHR '' '', CHR 0x09, CHR 0x0A, CHR 0x0B, CHR 0x0C, CHR 0x0D])"

definition strip :: "string \<Rightarrow> string" where
  "strip s = rev (dropWhile is_space (rev (dropWhile is_space s)))"

definition is_digit :: "char \<Rightarrow> bool" where
  "is_digit c = (c \<in> set ''0123456789'')"

definition digit_val :: "char \<Rightarrow> nat" where
  "digit_val c = of_char c - 48"

text \<open>A digit part is \<open>digit (["_"] digit)*\<close>; the result is its digits without the
  underscores, or \<open>None\<close> when the text is not a digit part.\<close>

fun digitpart :: "string \<Rightarrow> string option" where
  "digitpart [] = None"
| "digitpart [c] = (if is_digit c then Some [c] else None)"
| "digitpart (c # d # cs) =
     (if \<not> is_digit c then None
      else if d = CHR ''_'' then map_option (\<lambda>r. c # r) (digitpart cs)
      else map_option (\<lambda>r. c # r) (digitpart (d # cs)))"

definition nat_of_digits :: "string \<Rightarrow> nat" where
  "nat_of_digits ds = foldl (\<lambda>a c. 10 * a + digit_val c) 0 ds"

fun split_sign :: "string \<Rightarrow> bool \<times> string" where
  "split_sign (c # cs) =
     (if c = CHR ''-'' then (True, cs) else if c = CHR ''+'' then (False, cs)
      else (False, c # cs))"
| "split_sign [] = (False, [])"

text \<open>\<open>int(s)\<close> for a string: \<open>None\<close> stands for the ValueError.\<close>

definition int_of_str :: "string \<Rightarrow> int option" where
  "int_of_str s =
     (case split_sign (strip s) of
        (neg, body) \<Rightarrow>
          (case digitpart body of
             None \<Rightarrow> None
           | Some ds \<Rightarrow> Some (if neg then - int (nat_of_digits ds) else int (nat_of_digits ds))))"

text \<open>An optional digit part: the empty text counts as no digits.\<close>

definition opt_digits :: "string \<Rightarrow> string option" where
  "opt_digits s = (if s = [] then Some [] else digitpart s)"

definition is_exp_mark :: "char \<Rightarrow> bool" where
  "is_exp_mark c = (c = CHR ''e'' \<or> c = CHR ''E'')"

text \<open>The exponent after the mark, \<open>[+-] digitpart\<close>; no mark gives exponent 0.\<close>

definition exponent_of :: "string \<Rightarrow> int option" where
  "exponent_of rest =
     (case rest of
        [] \<Rightarrow> Some 0
      | _ # ex \<Rightarrow>
          (case split_sign ex of
             (neg, body) \<Rightarrow>
               (case digitpart body of
                  None \<Rightarrow> None
                | Some ds \<Rightarrow>
                    Some (if neg then - int (nat_of_digits ds) else int (nat_of_digits ds)))))"

text \<open>The mantissa \<open>digitpart ["." [digitpart]] | "." digitpart\<close>.\<close>

definition mantissa_of :: "string \<Rightarrow> real option" where
  "mantissa_of m =
     (let ip = takeWhile (\<lambda>c. c \<noteq> CHR ''.'') m;
          fp = drop 1 (dropWhile (\<lambda>c. c \<noteq> CHR ''.'') m)
      in if ip = [] \<and> fp = [] then None
         else (case (opt_digits ip, opt_digits fp) of
                 (Some ds, Some fs) \<Rightarrow>
                   Some (real (nat_of_digits ds) + real (nat_of_digits fs) / 10 ^ length fs)
               | _ \<Rightarrow> None))"

text \<open>
  \<open>float(s)\<close> for a string: \<open>None\<close> stands for the ValueError. The text is a signed
  spelling of infinity or NaN in any case, or a decimal notation, whose exact value is
  rounded to the nearest double; a text too large for a double reads as an infinity.
\<close>

definition float_of_str :: "string \<Rightarrow> pyval option" where
  "float_of_str s =
     (case split_sign (strip s) of
        (neg, body) \<Rightarrow>
          if lower body = ''inf'' \<or> lower body = ''infinity'' then Some (VInf neg)
          else if lower body = ''nan'' then Some VNaN
          else
            (case (mantissa_of (takeWhile (\<lambda>c. \<not> is_exp_mark c) body),
                   exponent_of (dropWhile (\<lambda>c. \<not> is_exp_mark c) body)) of
               (Some m, Some e) \<Rightarrow>
                 (let v = (if 0 \<le> e then m * 10 ^ nat e else m / 10 ^ nat (- e))
                  in Some (round_double (if neg then - v else v)))
             | _ \<Rightarrow> None))"

text \<open>
  \<open>float(val)\<close>. A float is returned as it is and an int is rounded to the nearest
  double; an int beyond the doubles raises OverflowError, a text that is no number
  ValueError, \<open>None\<close> and an \<open>APIAttr\<close> TypeError.
\<close>

fun py_float :: "pyval \<Rightarrow> error + pyval" where
  "py_float (VNum r) = (case round_double r of VInf neg \<Rightarrow> Inl OverflowError | v \<Rightarrow> Inr v)"
| "py_float (VInf neg) = Inr (VInf neg)"
| "py_float VNaN = Inr VNaN"
| "py_float (VStr s) = (case float_of_str s of None \<Rightarrow> Inl ValueError | Some v \<Rightarrow> Inr v)"
| "py_float VNone = Inl TypeError"
| "py_float (VAttr b) = Inl TypeError"

section \<open>Value normalizer\<close>

text \<open>
  \<open>convert_percentage_value\<close> (main.py, lines 309 to 348), with the branches in the
  order of the source. Its \<open>except\<close> clause turns ValueError and TypeError into the
  result \<open>None\<close>; any other exception leaves the function.
\<close>

definition convert_percentage_value :: "pyval \<Rightarrow> error + pyval option" where
  "convert_percentage_value raw_value =
     (case py_float raw_value of
        Inl e \<Rightarrow> if e = ValueError \<or> e = TypeError then Inr None else Inl e
      | Inr val \<Rightarrow>
          if flt val (VNum 1.0) then Inr (Some val)
          else if fge val (VNum 1000) then Inr (Some (fdiv (fdiv val 100.0) 100.0))
          else if fge val (VNum 100) then Inr (Some (fdiv (fdiv val 10.0) 100.0))
          else if fge val (VNum 1) then Inr (Some (fdiv val 100.0))
          else Inr (Some val))"

subsection \<open>Number to text: \<open>str()\<close> of a non-negative int\<close>

definition digit_char :: "nat \<Rightarrow> char" where
  "digit_char d = (''0123456789'' ! d)"

fun str_nat :: "nat \<Rightarrow> string" where
  "str_nat n =
     (if n < 10 then [digit_char n] else str_nat (n div 10) @ [digit_char (n mod 10)])"

declare str_nat.simps [simp del]

section \<open>Stat records and category resolution\<close>

text \<open>
  A \<open>Stat\<close> object of the upstream library. main.py probes each attribute with
  \<open>hasattr\<close>, so each field is optional: \<open>None\<close> is an object without the attribute.
  \<open>s_id\<close> holds \<open>str(stat.id)\<close>, the only form in which the code reads the id;
  \<open>s_display\<close> is the display name, a string when present; \<open>s_value\<close> is the raw value.
\<close>

record stat =
  s_id :: "string option"
  s_display :: "string option"
  s_value :: "pyval option"

text \<open>The dictionary \<open>{'id': ..., 'name': ..., 'index': ...}\<close> of one category.\<close>

record cat_info =
  c_id :: string
  c_name :: string
  c_index :: nat

text \<open>The loop of \<open>get_category_info_from_stats\<close> over \<open>enumerate(stats_list)\<close>
  (main.py, lines 269 to 288).\<close>

fun category_loop :: "(nat \<times> stat) list \<Rightarrow> cat_info list" where
  "category_loop [] = []"
| "category_loop ((idx, st) # rest) =
     (case s_display st of
        None \<Rightarrow> category_loop rest
      | Some category_name \<Rightarrow>
          if category_name = [] then category_loop rest
          else if CHR ''/'' \<in> set category_name \<and> category_name \<notin> set [''A/T'']
            then category_loop rest
          else \<lparr>c_id = (case s_id st of Some i \<Rightarrow> i | None \<Rightarrow> str_nat idx),
                 c_name = category_name, c_index = idx\<rparr> # category_loop rest)"

definition get_category_info_from_stats :: "stat list \<Rightarrow> cat_info list" where
  "get_category_info_from_stats stats_list =
     (if stats_list = [] then [] else category_loop (enumerate 0 stats_list))"

text \<open>\<open>is_percentage_stat\<close> (lines 293 to 306); both callers pass the id as a string.\<close>

definition is_percentage_stat :: "string \<Rightarrow> string option \<Rightarrow> bool" where
  "is_percentage_stat stat_id_or_index stat_display =
     (if stat_id_or_index \<in> {''5'', ''8'', ''11''} then True
      else (case stat_display of
              Some d \<Rightarrow> if d \<noteq> [] \<and> CHR ''%'' \<in> set d then True else False
            | None \<Rightarrow> False))"

text \<open>\<open>is_lower_better_stat\<close> (lines 419 to 439). \<open>in\<close> on strings is the contiguous
  substring test, \<open>startswith\<close> and \<open>endswith\<close> are \<open>prefix\<close> and \<open>suffix\<close>.\<close>

definition is_lower_better_stat :: "string \<Rightarrow> string option \<Rightarrow> bool" where
  "is_lower_better_stat category_name stat_id =
     (let category_lower = lower category_name
      in if sublist ''turnover'' category_lower then True
         else if category_lower \<in> set [''to'', ''tov''] then True
         else if prefix ''to '' category_lower \<or> suffix '' to'' category_lower then True
         else (case stat_id of
                 Some i \<Rightarrow> if i \<noteq> [] \<and> i = ''19'' then True else False
               | None \<Rightarrow> False))"

section \<open>Reading one stat value\<close>

text \<open>
  What \<open>extract_stat_value\<close> returns once it holds a raw value \<open>val\<close>: the block of
  lines 374 to 387, repeated at lines 396 to 409. The result \<open>None\<close> is Python's
  \<open>None\<close>; a number is returned as a float, and a value that \<open>float()\<close> rejects with
  ValueError or TypeError is returned as it is when it is truthy. Any other exception
  leaves the block.
\<close>

definition read_value :: "bool \<Rightarrow> pyval \<Rightarrow> error + pyval option" where
  "read_value is_percentage val =
     (if val = VAttr False then Inr None
      else if val = VStr ''/'' \<or> val = VStr '''' then Inr None
      else if is_percentage then convert_percentage_value val
      else (case py_float val of
              Inr f \<Rightarrow> Inr (Some f)
            | Inl e \<Rightarrow>
                if e = ValueError \<or> e = TypeError
                then Inr (if truthy val then Some val else None)
                else Inl e))"

text \<open>The loop of lines 370 to 387: the first stat with the wanted id and a \<open>value\<close>
  attribute decides; \<open>None\<close> means that the loop ended without a \<open>return\<close>.\<close>

fun id_loop :: "bool \<Rightarrow> string \<Rightarrow> stat list \<Rightarrow> (error + pyval option) option" where
  "id_loop is_percentage key [] = None"
| "id_loop is_percentage key (st # rest) =
     (if s_id st = Some key then
        (case s_value st of
           Some val \<Rightarrow> Some (read_value is_percentage val)
         | None \<Rightarrow> id_loop is_percentage key rest)
      else id_loop is_percentage key rest)"

text \<open>The \<open>try\<close> block of \<open>extract_stat_value\<close> (lines 361 to 411). Both callers pass
  the id as a string and the category name as \<open>stat_display\<close>. In the index fallback
  only the display name of the stat found there decides whether the value is a
  percentage.\<close>

definition extract_try :: "stat list \<Rightarrow> string \<Rightarrow> string option \<Rightarrow> error + pyval option" where
  "extract_try stats_list stat_id_or_index stat_display =
     (let is_percentage = is_percentage_stat stat_id_or_index stat_display
      in case id_loop is_percentage stat_id_or_index stats_list of
           Some r \<Rightarrow> r
         | None \<Rightarrow>
             (case int_of_str stat_id_or_index of
                None \<Rightarrow> Inr None
              | Some idx \<Rightarrow>
                  if 0 \<le> idx \<and> idx < int (length stats_list) then
                    (let st = stats_list ! nat idx
                     in case s_value st of
                          Some val \<Rightarrow>
                            read_value
                              (case s_display st of
                                 Some d \<Rightarrow> CHR ''%'' \<in> set d
                               | None \<Rightarrow> False) val
                        | None \<Rightarrow> Inr None)
                  else Inr None))"

text \<open>\<open>extract_stat_value\<close> (lines 351 to 416): an exception that leaves the \<open>try\<close>
  block is caught by \<open>except Exception: pass\<close>, and the result is \<open>None\<close>.\<close>

definition extract_stat_value :: "stat list \<Rightarrow> string \<Rightarrow> string option \<Rightarrow> pyval option" where
  "extract_stat_value stats_list stat_id_or_index stat_display =
     (if stats_list = [] then None
      else
        (case extract_try stats_list stat_id_or_index stat_display of
           Inl e \<Rightarrow> None
         | Inr r \<Rightarrow> r))"

section \<open>Comparing values\<close>

text \<open>Python orders numbers with numbers and strings with strings; any other pair
  raises TypeError.\<close>

definition py_lt :: "pyval \<Rightarrow> pyval \<Rightarrow> error + bool" where
  "py_lt a b =
     (if is_float a \<and> is_float b then Inr (flt a b)
      else (case (a, b) of
              (VStr s, VStr t) \<Rightarrow> Inr (s < t)
            | _ \<Rightarrow> Inl TypeError))"

definition py_gt :: "pyval \<Rightarrow> pyval \<Rightarrow> error + bool" where
  "py_gt a b =
     (if is_float a \<and> is_float b then Inr (flt b a)
      else (case (a, b) of
              (VStr s, VStr t) \<Rightarrow> Inr (t < s)
            | _ \<Rightarrow> Inl TypeError))"

fun is_str :: "pyval \<Rightarrow> bool" where
  "is_str (VStr s) = True"
| "is_str _ = False"

fun str_of :: "pyval \<Rightarrow> string" where
  "str_of (VStr s) = s"
| "str_of _ = []"

text \<open>A stable sort by a key; with \<open>reverse=True\<close> Python reverses, sorts and reverses
  again, so that equal keys keep their order in both directions.\<close>

definition stable_sort :: "('a \<Rightarrow> 'k::linorder) \<Rightarrow> bool \<Rightarrow> 'a list \<Rightarrow> 'a list" where
  "stable_sort key reverse xs =
     (if reverse then rev (sort_key key (rev xs)) else sort_key key xs)"

text \<open>
  With a NaN among the keys the comparisons are no order, and the result is whatever
  the steps of the sort make of them. The model then follows the list sort of CPython
  for a list of fewer than 64 items: the run at the head of the list is found, ascending
  while no item is less than the one before it, or strictly descending and then
  reversed, and each later item is put into the part before it at the place a binary
  search with \<open><\<close> gives.
\<close>

function bisect :: "('a \<Rightarrow> 'a \<Rightarrow> bool) \<Rightarrow> 'a \<Rightarrow> 'a list \<Rightarrow> nat \<Rightarrow> nat \<Rightarrow> nat" where
  "bisect lt pivot ys l r =
     (if l < r then
        (let p = l + (r - l) div 2
         in if lt pivot (ys ! p) then bisect lt pivot ys l p
            else bisect lt pivot ys (p + 1) r)
      else l)"
  by pat_completeness auto
termination
  by (relation "measure (\<lambda>(lt, pivot, ys, l, r). r - l)") auto

declare bisect.simps [simp del]

definition binary_insert :: "('a \<Rightarrow> 'a \<Rightarrow> bool) \<Rightarrow> 'a list \<Rightarrow> 'a \<Rightarrow> 'a list" where
  "binary_insert lt ys x =
     (let l = bisect lt x ys 0 (length ys) in take l ys @ x # drop l ys)"

fun run_desc :: "('a \<Rightarrow> 'a \<Rightarrow> bool) \<Rightarrow> 'a \<Rightarrow> 'a list \<Rightarrow> nat" where
  "run_desc lt prev [] = 0"
| "run_desc lt prev (x # xs) = (if lt x prev then Suc (run_desc lt x xs) else 0)"

fun run_asc :: "('a \<Rightarrow> 'a \<Rightarrow> bool) \<Rightarrow> 'a \<Rightarrow> 'a list \<Rightarrow> nat" where
  "run_asc lt prev [] = 0"
| "run_asc lt prev (x # xs) = (if lt x prev then 0 else Suc (run_asc lt x xs))"

definition insertion_sort :: "('a \<Rightarrow> 'a \<Rightarrow> bool) \<Rightarrow> 'a list \<Rightarrow> 'a list" where
  "insertion_sort lt xs =
     (case xs of
        a0 # a1 # rest \<Rightarrow>
          if lt a1 a0 then
            (let n = 2 + run_desc lt a1 rest
             in foldl (binary_insert lt) (rev (take n xs)) (drop n xs))
          else
            (let n = 2 + run_asc lt a1 rest
             in foldl (binary_insert lt) (take n xs) (drop n xs))
      | _ \<Rightarrow> xs)"

text \<open>
  \<open>sorted(all_values, key=lambda x: x[1], reverse=...)\<close>. A list of at most one pair
  is sorted without a comparison. A longer list sorts when its keys are all floats or
  all strings; otherwise some comparison of the sort meets two values that Python cannot
  order, and the call raises TypeError. Floats without a NaN and strings are put in
  order by the stable sort.
\<close>

definition py_sorted :: "bool \<Rightarrow> (string \<times> pyval) list \<Rightarrow> error + (string \<times> pyval) list" where
  "py_sorted reverse xs =
     (if length xs \<le> 1 then Inr xs
      else if list_all (\<lambda>x. is_float (snd x)) xs then
        (if list_all (\<lambda>x. snd x \<noteq> VNaN) xs then
           Inr (stable_sort (\<lambda>x. float_key (snd x)) reverse xs)
         else if reverse then
           Inr (rev (insertion_sort (\<lambda>a b. flt (snd a) (snd b)) (rev xs)))
         else Inr (insertion_sort (\<lambda>a b. flt (snd a) (snd b)) xs))
      else if list_all (\<lambda>x. is_str (snd x)) xs then
        Inr (stable_sort (\<lambda>x. str_of (snd x)) reverse xs)
      else Inl TypeError)"

section \<open>League comparator\<close>

definition GREEN :: string where "GREEN = CHR 0x1B # ''[92m''"
definition YELLOW :: string where "YELLOW = CHR 0x1B # ''[93m''"
definition RED :: string where "RED = CHR 0x1B # ''[91m''"
definition RESET :: string where "RESET = CHR 0x1B # ''[0m''"

text \<open>The division \<open>better_than / total_teams\<close> of two counts of list entries: the
  quotient rounded to the nearest double. A list has fewer than \<open>2 ^ 63\<close> entries, so
  the quotient of two counts lies within the doubles.\<close>

definition py_truediv :: "nat \<Rightarrow> nat \<Rightarrow> error + pyval" where
  "py_truediv a b =
     (if b = 0 then Inl ZeroDivisionError else Inr (round_double (real a / real b)))"

text \<open>\<open>get_color_for_performance\<close> (lines 442 to 460); the literals \<open>0.7\<close> and \<open>0.3\<close>
  are the doubles nearest to them.\<close>

definition get_color_for_performance :: "nat \<Rightarrow> nat \<Rightarrow> error + string" where
  "get_color_for_performance better_than total_teams =
     (if total_teams = 0 then Inr RESET
      else
        (case py_truediv better_than total_teams of
           Inl e \<Rightarrow> Inl e
         | Inr ratio \<Rightarrow>
             if fge ratio (round_double 0.7) then Inr GREEN
             else if flt ratio (round_double 0.3) then Inr RED
             else Inr YELLOW))"

record team =
  team_id :: int
  team_name :: string

text \<open>\<open>{team.team_id: team for team in all_teams}\<close>: a later team replaces an earlier
  one with the same id.\<close>

definition team_lookup :: "team list \<Rightarrow> (int \<rightharpoonup> team)" where
  "team_lookup all_teams = map_of (rev (map (\<lambda>t. (team_id t, t)) all_teams))"

text \<open>
  The dictionary \<open>all_team_stats\<close> is the list of its items in insertion order, which
  is the order of iteration; its keys are distinct. The loop of lines 530 to 541 fills
  \<open>all_values\<close> and \<open>other_values\<close>.
\<close>

fun collect_values ::
  "(int \<rightharpoonup> team) \<Rightarrow> int \<Rightarrow> string \<Rightarrow> string \<Rightarrow> (int \<times> stat list) list
     \<Rightarrow> (string \<times> pyval) list \<times> (string \<times> pyval) list" where
  "collect_values lookup selected_team_id stat_id category_name [] = ([], [])"
| "collect_values lookup selected_team_id stat_id category_name ((tid, stats_list) # rest) =
     (case collect_values lookup selected_team_id stat_id category_name rest of
        (all_values, other_values) \<Rightarrow>
          (case lookup tid of
             None \<Rightarrow> (all_values, other_values)
           | Some tm \<Rightarrow>
               (case extract_stat_value stats_list stat_id (Some category_name) of
                  None \<Rightarrow> (all_values, other_values)
                | Some v \<Rightarrow>
                    ((team_name tm, v) # all_values,
                     if tid \<noteq> selected_team_id then (team_name tm, v) # other_values
                     else other_values))))"

text \<open>\<open>sum(1 for _, val in other_values if selected_value > val)\<close>, or with \<open><\<close> when
  lower is better; the first comparison that raises ends the sum.\<close>

fun count_beaten :: "bool \<Rightarrow> pyval \<Rightarrow> (string \<times> pyval) list \<Rightarrow> error + nat" where
  "count_beaten higher_is_better selected_value [] = Inr 0"
| "count_beaten higher_is_better selected_value ((nm, val) # rest) =
     (case (if higher_is_better then py_gt selected_value val else py_lt selected_value val) of
        Inl e \<Rightarrow> Inl e
      | Inr b \<Rightarrow>
          (case count_beaten higher_is_better selected_value rest of
             Inl e \<Rightarrow> Inl e
           | Inr n \<Rightarrow> Inr ((if b then 1 else 0) + n)))"

text \<open>
  One line of the table. \<open>r_tally\<close> holds the locals \<open>better_than\<close> and
  \<open>len(other_values)\<close>, which exist only when \<open>other_values\<close> is not empty. The values are
  kept as they are: their formatting with two decimals or as a percentage is
  presentation.
\<close>

record row =
  r_category :: string
  r_selected :: pyval
  r_tally :: "(nat \<times> nat) option"
  r_vs_teams :: string
  r_vs_teams_colored :: string
  r_best :: "string \<times> pyval"
  r_worst :: "string \<times> pyval"

datatype line = NotAvailable string | Row row

text \<open>Lines 511 to 516: the id of the category, or its index as text when the id is
  empty.\<close>

definition category_key :: "cat_info \<Rightarrow> string" where
  "category_key ci = (if c_id ci \<noteq> [] then c_id ci else str_nat (c_index ci))"

text \<open>The body of the loop over \<open>categories_info\<close> in \<open>compare_teams\<close> (lines 510 to
  602).\<close>

definition category_row ::
  "int \<Rightarrow> stat list \<Rightarrow> (int \<rightharpoonup> team) \<Rightarrow> (int \<times> stat list) list \<Rightarrow> cat_info
     \<Rightarrow> error + line" where
  "category_row selected_team_id selected_stats lookup all_team_stats ci =
     (let stat_id = category_key ci; category_name = c_name ci
      in case extract_stat_value selected_stats stat_id (Some category_name) of
           None \<Rightarrow> Inr (NotAvailable category_name)
         | Some selected_value \<Rightarrow>
             (case collect_values lookup selected_team_id stat_id category_name all_team_stats of
                (all_values, other_values) \<Rightarrow>
                  if all_values = [] then Inr (NotAvailable category_name)
                  else
                    let higher_is_better = \<not> is_lower_better_stat category_name (Some stat_id)
                    in case py_sorted higher_is_better all_values of
                         Inl e \<Rightarrow> Inl e
                       | Inr [] \<Rightarrow> Inl IndexError
                       | Inr (b # bs) \<Rightarrow>
                           if other_values = [] then
                             Inr (Row \<lparr>r_category = category_name, r_selected = selected_value,
                                       r_tally = None, r_vs_teams = ''0/0'',
                                       r_vs_teams_colored = ''-'',
                                       r_best = b, r_worst = last (b # bs)\<rparr>)
                           else
                             (case count_beaten higher_is_better selected_value other_values of
                                Inl e \<Rightarrow> Inl e
                              | Inr better_than \<Rightarrow>
                                  (let vs_teams = str_nat better_than @ ''/''
                                         @ str_nat (length other_values)
                                   in case get_color_for_performance better_than
                                             (length other_values) of
                                        Inl e \<Rightarrow> Inl e
                                      | Inr color \<Rightarrow>
                                          Inr (Row \<lparr>r_category = category_name,
                                                    r_selected = selected_value,
                                                    r_tally = Some (better_than, length other_values),
                                                    r_vs_teams = vs_teams,
                                                    r_vs_teams_colored = color @ vs_teams @ RESET,
                                                    r_best = b, r_worst = last (b # bs)\<rparr>)))))"
section \<open>Head-to-head scorer\<close>

datatype outcome = W | L | T

text \<open>
  One pass of the loop over \<open>categories_info\<close> in \<open>compare_head_to_head\<close> (lines 649
  to 685): \<open>None\<close> is a \<open>continue\<close>, which leaves the tally as it is.
\<close>

definition category_outcome :: "stat list \<Rightarrow> stat list \<Rightarrow> cat_info \<Rightarrow> error + outcome option" where
  "category_outcome selected_stats opponent_stats ci =
     (let stat_id = c_id ci; category_name = c_name ci
      in if stat_id = [] then Inr None
         else
           (case extract_stat_value selected_stats stat_id (Some category_name) of
              None \<Rightarrow> Inr None
            | Some selected_value \<Rightarrow>
                (case extract_stat_value opponent_stats stat_id (Some category_name) of
                   None \<Rightarrow> Inr None
                 | Some opponent_value \<Rightarrow>
                     let higher_is_better = \<not> is_lower_better_stat category_name (Some stat_id)
                     in if higher_is_better then
                          (case py_gt selected_value opponent_value of
                             Inl e \<Rightarrow> Inl e
                           | Inr True \<Rightarrow> Inr (Some W)
                           | Inr False \<Rightarrow>
                               (case py_lt selected_value opponent_value of
                                  Inl e \<Rightarrow> Inl e
                                | Inr True \<Rightarrow> Inr (Some L)
                                | Inr False \<Rightarrow> Inr (Some T)))
                        else
                          (case py_lt selected_value opponent_value of
                             Inl e \<Rightarrow> Inl e
                           | Inr True \<Rightarrow> Inr (Some W)
                           | Inr False \<Rightarrow>
                               (case py_gt selected_value opponent_value of
                                  Inl e \<Rightarrow> Inl e
                                | Inr True \<Rightarrow> Inr (Some L)
                                | Inr False \<Rightarrow> Inr (Some T))))))"

text \<open>The loop itself, with the locals \<open>wins\<close>, \<open>losses\<close> and \<open>category_results\<close> as
  the state.\<close>

fun tally_loop ::
  "stat list \<Rightarrow> stat list \<Rightarrow> cat_info list \<Rightarrow> nat \<times> nat \<times> (string \<times> outcome) list
     \<Rightarrow> error + nat \<times> nat \<times> (string \<times> outcome) list" where
  "tally_loop selected_stats opponent_stats [] st = Inr st"
| "tally_loop selected_stats opponent_stats (ci # rest) (wins, losses, category_results) =
     (case category_outcome selected_stats opponent_stats ci of
        Inl e \<Rightarrow> Inl e
      | Inr None \<Rightarrow>
          tally_loop selected_stats opponent_stats rest (wins, losses, category_results)
      | Inr (Some W) \<Rightarrow>
          tally_loop selected_stats opponent_stats rest
            (wins + 1, losses, category_results @ [(c_name ci, W)])
      | Inr (Some L) \<Rightarrow>
          tally_loop selected_stats opponent_stats rest
            (wins, losses + 1, category_results @ [(c_name ci, L)])
      | Inr (Some T) \<Rightarrow>
          tally_loop selected_stats opponent_stats rest
            (wins, losses, category_results @ [(c_name ci, T)]))"

text \<open>The dictionary appended to \<open>matchup_results\<close> for one opponent.\<close>

record matchup_result =
  m_team :: team
  m_score :: string
  m_wins :: nat
  m_losses :: nat
  m_category_results :: "(string \<times> outcome) list"

text \<open>The code keeps no count of ties: they are the \<open>T\<close> entries of
  \<open>category_results\<close>.\<close>

definition ties :: "matchup_result \<Rightarrow> nat" where
  "ties r = length (filter (\<lambda>cr. snd cr = T) (m_category_results r))"

text \<open>The loop over \<open>all_team_stats.items()\<close> (lines 634 to 696), with
  \<open>matchup_results\<close> in the order of the appends.\<close>

fun matchup_loop ::
  "int \<Rightarrow> stat list \<Rightarrow> (int \<rightharpoonup> team) \<Rightarrow> cat_info list \<Rightarrow> (int \<times> stat list) list
     \<Rightarrow> error + matchup_result list" where
  "matchup_loop selected_team_id selected_stats lookup categories_info [] = Inr []"
| "matchup_loop selected_team_id selected_stats lookup categories_info ((tid, stats_list) # rest) =
     (if tid = selected_team_id then
        matchup_loop selected_team_id selected_stats lookup categories_info rest
      else
        (case lookup tid of
           None \<Rightarrow> matchup_loop selected_team_id selected_stats lookup categories_info rest
         | Some opponent_team \<Rightarrow>
             (case tally_loop selected_stats stats_list categories_info (0, 0, []) of
                Inl e \<Rightarrow> Inl e
              | Inr (wins, losses, category_results) \<Rightarrow>
                  (case matchup_loop selected_team_id selected_stats lookup categories_info rest of
                     Inl e \<Rightarrow> Inl e
                   | Inr ms \<Rightarrow>
                       Inr (\<lparr>m_team = opponent_team,
                             m_score = str_nat wins @ ''-'' @ str_nat losses,
                             m_wins = wins, m_losses = losses,
                             m_category_results = category_results\<rparr> # ms)))))"

text \<open>\<open>compare_head_to_head\<close> (lines 614 to 699), up to the sorted \<open>matchup_results\<close>
  that the rest of the function prints.\<close>

definition compare_head_to_head ::
  "team \<Rightarrow> stat list \<Rightarrow> team list \<Rightarrow> (int \<times> stat list) list \<Rightarrow> cat_info list
     \<Rightarrow> error + matchup_result list" where
  "compare_head_to_head selected_team selected_stats all_teams all_team_stats categories_info =
     (case matchup_loop (team_id selected_team) selected_stats (team_lookup all_teams)
             categories_info all_team_stats of
        Inl e \<Rightarrow> Inl e
      | Inr matchup_results \<Rightarrow> Inr (stable_sort m_wins True matchup_results))"

section \<open>The whole comparison\<close>




section \<open>Sample data\<close>

text \<open>A stats list with a single stat, and a league of four teams, for the worked
  examples below.\<close>

definition one_stat :: "string \<Rightarrow> string \<Rightarrow> pyval \<Rightarrow> stat list" where
  "one_stat i d v = [\<lparr>s_id = Some i, s_display = Some d, s_value = Some v\<rparr>]"

definition league4 :: "team list" where
  "league4 = [\<lparr>team_id = 1, team_name = ''Mine''\<rparr>, \<lparr>team_id = 2, team_name = ''B''\<rparr>,
     \<lparr>team_id = 3, team_name = ''C''\<rparr>, \<lparr>team_id = 4, team_name = ''D''\<rparr>]"

text \<open>A stats list with turnovers and points, the two categories resolved from it, and
  the selected team.\<close>

definition to_pts :: "pyval \<Rightarrow> pyval \<Rightarrow> stat list" where
  "to_pts a b = [\<lparr>s_id = Some ''19'', s_display = Some ''TO'', s_value = Some a\<rparr>,
                 \<lparr>s_id = Some ''12'', s_display = Some ''PTS'', s_value = Some b\<rparr>]"

definition cats2 :: "cat_info list" where
  "cats2 = [\<lparr>c_id = ''19'', c_name = ''TO'', c_index = 0\<rparr>,
            \<lparr>c_id = ''12'', c_name = ''PTS'', c_index = 1\<rparr>]"

definition mine :: team where
  "mine = \<lparr>team_id = 1, team_name = ''Mine''\<rparr>"

section \<open>Percentage normalization\<close>

lemma flt_num: "flt (VNum a) (VNum b) \<longleftrightarrow> a < b"
  by (simp add: flt_def)

lemma fge_num: "fge (VNum a) (VNum b) \<longleftrightarrow> b \<le> a"
  by (simp add: fge_def)

text \<open>A number of magnitude \<open>2 ^ 1024\<close> or more rounds to an infinity, so that
  \<open>float()\<close> of such an int raises OverflowError.\<close>

lemma pow2_mono: "i \<le> j \<Longrightarrow> pow2 i \<le> pow2 j"
proof -
  assume ij: "i \<le> j"
  have "pow2 i = 2 powr (real_of_int i)" for i
    by (simp add: pow2_def powr_realpow powr_minus field_simps flip: powr_realpow)
  then show ?thesis using ij by simp
qed

lemma binade_overflow:
  "pow2 1024 \<le> a \<Longrightarrow> k \<le> 1023 \<Longrightarrow> nat (1024 - k) \<le> n \<Longrightarrow> binade n a k = 1024"
proof (induction n arbitrary: k)
  case 0
  then show ?case by simp
next
  case (Suc n)
  have 1: "\<not> a < pow2 k" using pow2_mono [of k 1024] Suc.prems by simp
  have 2: "pow2 (k + 1) \<le> a" using pow2_mono [of "k + 1" 1024] Suc.prems by simp
  show ?case
  proof (cases "1023 \<le> k")
    case True
    then show ?thesis using 1 2 by simp
  next
    case False
    then have "binade n a (k + 1) = 1024"
      using Suc.IH [of "k + 1"] Suc.prems by simp
    then show ?thesis using 1 2 False by simp
  qed
qed

lemma round_double_overflow: "2 ^ 1024 \<le> \<bar>x\<bar> \<Longrightarrow> round_double x = VInf (x < 0)"
proof -
  assume a: "2 ^ 1024 \<le> \<bar>x\<bar>"
  have p: "pow2 1024 = 2 ^ 1024" by (simp add: pow2_def)
  have "pow2 1024 \<le> \<bar>x\<bar>" using a p by simp
  then have "binade 1100 \<bar>x\<bar> 0 = 1024"
    by (rule binade_overflow) simp_all
  moreover have "x \<noteq> 0" using a by auto
  ultimately show ?thesis by (simp add: round_double_def Let_def)
qed

lemma py_float_overflow: "2 ^ 1024 \<le> \<bar>r\<bar> \<Longrightarrow> py_float (VNum r) = Inl OverflowError"
  by (simp add: round_double_overflow)

text \<open>\<open>float()\<close> rounds an int to the nearest double, and reads the spellings of
  infinity and NaN.\<close>

lemma py_float_examples:
  "py_float (VNum (2 ^ 53 + 1)) = Inr (VNum (2 ^ 53))"
  "py_float (VStr ''NaN'') = Inr VNaN"
  "py_float (VStr '' -inf '') = Inr (VInf True)"
  "py_float (VStr ''Infinity'') = Inr (VInf False)"
  by code_simp+

text \<open>
  C1. For every raw value that \<open>float()\<close> reads as a finite double \<open>v\<close>,
  \<open>convert_percentage_value\<close> is the piecewise function in double arithmetic, each
  division rounded to the nearest double: \<open>v\<close> unchanged below 1, \<open>v/100\<close> from 1 up to
  100, \<open>(v/10)/100\<close> from 100 up to 1000 and \<open>(v/100)/100\<close> from 1000 on; an infinity and
  a NaN are returned as they are. The raw values 454 and 4540 both give
  \<open>8178536923304820 / 2 ^ 54\<close>, the double that prints as 0.45399999999999996.
\<close>

theorem convert_percentage_value_piecewise:
  "(py_float raw = Inr (VNum v) \<longrightarrow>
      convert_percentage_value raw =
        Inr (Some (if v < 1 then VNum v
                   else if v < 100 then round_double (v / 100)
                   else if v < 1000 then fdiv (round_double (v / 10)) 100
                   else fdiv (round_double (v / 100)) 100)))
   \<and> (py_float raw = Inr (VInf neg) \<longrightarrow> convert_percentage_value raw = Inr (Some (VInf neg)))
   \<and> (py_float raw = Inr VNaN \<longrightarrow> convert_percentage_value raw = Inr (Some VNaN))
   \<and> convert_percentage_value (VNum 454) = Inr (Some (VNum (8178536923304820 / 2 ^ 54)))
   \<and> convert_percentage_value (VNum 4540) = Inr (Some (VNum (8178536923304820 / 2 ^ 54)))"
proof (intro conjI impI)
  assume "py_float raw = Inr (VNum v)"
  then show "convert_percentage_value raw =
        Inr (Some (if v < 1 then VNum v
                   else if v < 100 then round_double (v / 100)
                   else if v < 1000 then fdiv (round_double (v / 10)) 100
                   else fdiv (round_double (v / 100)) 100))"
    by (simp add: convert_percentage_value_def flt_num fge_num)
next
  assume "py_float raw = Inr (VInf neg)"
  then show "convert_percentage_value raw = Inr (Some (VInf neg))"
    by (simp add: convert_percentage_value_def flt_def fge_def)
next
  assume "py_float raw = Inr VNaN"
  then show "convert_percentage_value raw = Inr (Some VNaN)"
    by (simp add: convert_percentage_value_def flt_def fge_def)
next
  show "convert_percentage_value (VNum 454) = Inr (Some (VNum (8178536923304820 / 2 ^ 54)))"
    by code_simp
next
  show "convert_percentage_value (VNum 4540) = Inr (Some (VNum (8178536923304820 / 2 ^ 54)))"
    by code_simp
qed

theorem convert_percentage_value_piecewise_witness:
  "py_float (VStr ''45.4'') = Inr (VNum (6389481971331891 / 2 ^ 47))
   \<and> convert_percentage_value (VStr ''45.4'') = Inr (Some (VNum (8178536923304820 / 2 ^ 54)))
   \<and> py_float (VStr ''-Infinity'') = Inr (VInf True)
   \<and> convert_percentage_value (VStr ''-Infinity'') = Inr (Some (VInf True))
   \<and> py_float (VStr ''nan'') = Inr VNaN
   \<and> convert_percentage_value (VStr ''nan'') = Inr (Some VNaN)"
proof -
  have a: "py_float (VStr ''45.4'') = Inr (VNum (6389481971331891 / 2 ^ 47))"
    by code_simp
  have r: "(if (6389481971331891 / 2 ^ 47 :: real) < 1 then VNum (6389481971331891 / 2 ^ 47)
            else if (6389481971331891 / 2 ^ 47 :: real) < 100
              then round_double (6389481971331891 / 2 ^ 47 / 100)
            else if (6389481971331891 / 2 ^ 47 :: real) < 1000
              then fdiv (round_double (6389481971331891 / 2 ^ 47 / 10)) 100
            else fdiv (round_double (6389481971331891 / 2 ^ 47 / 100)) 100)
           = VNum (8178536923304820 / 2 ^ 54)"
    by code_simp
  have b: "py_float (VStr ''-Infinity'') = Inr (VInf True)" by code_simp
  have c: "py_float (VStr ''nan'') = Inr VNaN" by code_simp
  have "convert_percentage_value (VStr ''45.4'') = Inr (Some (VNum (8178536923304820 / 2 ^ 54)))"
    using convert_percentage_value_piecewise
      [where raw = "VStr ''45.4''" and v = "6389481971331891 / 2 ^ 47", THEN conjunct1,
        THEN mp, OF a]
    by (simp only: r)
  moreover have "convert_percentage_value (VStr ''-Infinity'') = Inr (Some (VInf True))"
    using convert_percentage_value_piecewise
      [where raw = "VStr ''-Infinity''" and neg = True, THEN conjunct2, THEN conjunct1,
        THEN mp, OF b] .
  moreover have "convert_percentage_value (VStr ''nan'') = Inr (Some VNaN)"
    using convert_percentage_value_piecewise
      [where raw = "VStr ''nan''", THEN conjunct2, THEN conjunct2, THEN conjunct1,
        THEN mp, OF c] .
  ultimately show ?thesis using a b c by blast
qed

text \<open>The double nearest to 0.454 is \<open>8178536923304821 / 2 ^ 54\<close>: the two divisions
  of 454 and of 4540 end one unit in the last place below it.\<close>

theorem percentage_of_454_not_nearest:
  "round_double 0.454 = VNum (8178536923304821 / 2 ^ 54)
   \<and> convert_percentage_value (VNum 454) \<noteq> Inr (Some (round_double 0.454))
   \<and> convert_percentage_value (VNum 454) \<noteq> Inr (Some (VNum 0.454))
   \<and> convert_percentage_value (VNum 4540) \<noteq> Inr (Some (round_double 0.454))
   \<and> convert_percentage_value (VNum 4540) \<noteq> Inr (Some (VNum 0.454))"
proof -
  have n: "round_double 0.454 = VNum (8178536923304821 / 2 ^ 54)" by code_simp
  have a: "convert_percentage_value (VNum 454) = Inr (Some (VNum (8178536923304820 / 2 ^ 54)))"
    by code_simp
  have b: "convert_percentage_value (VNum 4540) = Inr (Some (VNum (8178536923304820 / 2 ^ 54)))"
    by code_simp
  show ?thesis unfolding a b n by simp
qed

section \<open>Category resolution\<close>

lemma category_loop_names:
  "map c_name (category_loop es) =
     filter (\<lambda>n. n \<noteq> [] \<and> (CHR ''/'' \<notin> set n \<or> n = ''A/T''))
       (List.map_filter (\<lambda>e. s_display (snd e)) es)"
  by (induction es rule: category_loop.induct)
     (auto simp: List.map_filter_simps split: option.splits)

lemma map_filter_enumerate:
  "List.map_filter (\<lambda>e. f (snd e)) (enumerate k xs) = List.map_filter f xs"
  by (induction xs arbitrary: k) (auto simp: List.map_filter_simps split: option.splits)

text \<open>
  C3. The names of the resolved categories are the display names of the sample stats, in
  source order, without the names that contain a slash other than the literal \<open>A/T\<close>
  (and without the stats that carry no display name); the names
  PTS, FGM/FGA, A/T, TO resolve to PTS, A/T, TO.
\<close>

theorem get_category_info_names:
  "map c_name (get_category_info_from_stats stats) =
     filter (\<lambda>n. n \<noteq> [] \<and> (CHR ''/'' \<notin> set n \<or> n = ''A/T''))
       (List.map_filter s_display stats)
   \<and> map c_name (get_category_info_from_stats
        [\<lparr>s_id = Some ''12'', s_display = Some ''PTS'', s_value = Some (VNum 512)\<rparr>,
         \<lparr>s_id = Some ''9004003'', s_display = Some ''FGM/FGA'', s_value = Some (VStr ''200/431'')\<rparr>,
         \<lparr>s_id = Some ''20'', s_display = Some ''A/T'', s_value = Some (VNum 1.8)\<rparr>,
         \<lparr>s_id = Some ''19'', s_display = Some ''TO'', s_value = Some (VNum 61)\<rparr>])
      = [''PTS'', ''A/T'', ''TO'']"
proof
  show "map c_name (get_category_info_from_stats stats) =
     filter (\<lambda>n. n \<noteq> [] \<and> (CHR ''/'' \<notin> set n \<or> n = ''A/T''))
       (List.map_filter s_display stats)"
    by (cases "stats = []")
       (simp_all add: get_category_info_from_stats_def category_loop_names
          map_filter_enumerate List.map_filter_simps)
next
  show "map c_name (get_category_info_from_stats
        [\<lparr>s_id = Some ''12'', s_display = Some ''PTS'', s_value = Some (VNum 512)\<rparr>,
         \<lparr>s_id = Some ''9004003'', s_display = Some ''FGM/FGA'', s_value = Some (VStr ''200/431'')\<rparr>,
         \<lparr>s_id = Some ''20'', s_display = Some ''A/T'', s_value = Some (VNum 1.8)\<rparr>,
         \<lparr>s_id = Some ''19'', s_display = Some ''TO'', s_value = Some (VNum 61)\<rparr>])
      = [''PTS'', ''A/T'', ''TO'']"
    by (simp add: get_category_info_from_stats_def enumerate_eq_zip upt_rec)
qed

theorem get_category_info_names_witness:
  "map c_name (get_category_info_from_stats
      [\<lparr>s_id = None, s_display = Some ''FTM/FTA'', s_value = None\<rparr>,
       \<lparr>s_id = None, s_display = Some ''A/T'', s_value = None\<rparr>,
       \<lparr>s_id = None, s_display = None, s_value = None\<rparr>,
       \<lparr>s_id = None, s_display = Some ''REB'', s_value = None\<rparr>])
     = [''A/T'', ''REB'']"
  using get_category_info_names
    [of "[\<lparr>s_id = None, s_display = Some ''FTM/FTA'', s_value = None\<rparr>,
       \<lparr>s_id = None, s_display = Some ''A/T'', s_value = None\<rparr>,
       \<lparr>s_id = None, s_display = None, s_value = None\<rparr>,
       \<lparr>s_id = None, s_display = Some ''REB'', s_value = None\<rparr>]"]
  by (simp add: List.map_filter_simps)

section \<open>Polarity\<close>

text \<open>
  C4. A category is lower-is-better exactly when its lower-cased display name contains
  \<open>turnover\<close>, is \<open>to\<close> or \<open>tov\<close>, starts with \<open>to\<close> and a space, ends with a space and
  \<open>to\<close>, or its id is the turnover id \<open>19\<close>; every other category is higher-is-better.
\<close>

theorem is_lower_better_stat_iff:
  "is_lower_better_stat category_name stat_id \<longleftrightarrow>
     (\<exists>p s. lower category_name = p @ ''turnover'' @ s)
     \<or> lower category_name = ''to'' \<or> lower category_name = ''tov''
     \<or> (\<exists>r. lower category_name = ''to '' @ r)
     \<or> (\<exists>r. lower category_name = r @ '' to'')
     \<or> stat_id = Some ''19''"
proof -
  have a: "sublist ''turnover'' (lower category_name)
             \<longleftrightarrow> (\<exists>p s. lower category_name = p @ ''turnover'' @ s)"
    by (simp only: sublist_def)
  have b: "prefix ''to '' (lower category_name) \<longleftrightarrow> (\<exists>r. lower category_name = ''to '' @ r)"
    by (simp only: prefix_def)
  have c: "suffix '' to'' (lower category_name) \<longleftrightarrow> (\<exists>r. lower category_name = r @ '' to'')"
    by (simp only: suffix_def)
  show ?thesis
    unfolding a [symmetric] b [symmetric] c [symmetric]
    by (auto simp: is_lower_better_stat_def Let_def split: option.splits)
qed

theorem is_lower_better_stat_iff_witness:
  "is_lower_better_stat ''Turnovers'' (Some ''19'') \<and> is_lower_better_stat ''TO'' None
   \<and> is_lower_better_stat ''PTS'' (Some ''19'') \<and> \<not> is_lower_better_stat ''PTS'' (Some ''12'')
   \<and> \<not> is_lower_better_stat ''TOTAL'' None"
proof -
  have l1: "lower ''Turnovers'' = ''turnovers''" by code_simp
  have l2: "lower ''TO'' = ''to''" by code_simp
  have l3: "lower ''PTS'' = ''pts''" by code_simp
  have l4: "lower ''TOTAL'' = ''total''" by code_simp
  have "lower ''Turnovers'' = [] @ ''turnover'' @ ''s''" by (simp add: l1)
  then have t1: "is_lower_better_stat ''Turnovers'' (Some ''19'')"
    using is_lower_better_stat_iff [of "''Turnovers''" "Some ''19''"] by blast
  have t2: "is_lower_better_stat ''TO'' None"
    using is_lower_better_stat_iff [of "''TO''" None] l2 by simp
  have t3: "is_lower_better_stat ''PTS'' (Some ''19'')"
    using is_lower_better_stat_iff [of "''PTS''" "Some ''19''"] by simp
  have t4: "\<not> is_lower_better_stat ''PTS'' (Some ''12'')"
    unfolding is_lower_better_stat_iff [of "''PTS''" "Some ''12''"] l3
    by (auto simp: append_eq_Cons_conv Cons_eq_append_conv)
  have t5: "\<not> is_lower_better_stat ''TOTAL'' None"
    unfolding is_lower_better_stat_iff [of "''TOTAL''" None] l4
    by (auto simp: append_eq_Cons_conv Cons_eq_append_conv)
  show ?thesis using t1 t2 t3 t4 t5 by blast
qed

section \<open>Missing and unparseable values\<close>

lemma id_loop_find:
  "id_loop p key stats =
     map_option (\<lambda>st. read_value p (the (s_value st)))
       (find (\<lambda>st. s_id st = Some key \<and> s_value st \<noteq> None) stats)"
  by (induction stats) (auto split: option.splits)

lemma extract_by_id:
  assumes "find (\<lambda>st. s_id st = Some key \<and> s_value st \<noteq> None) stats = Some st"
    and "s_value st = Some v"
  shows "extract_stat_value stats key disp =
           (case read_value (is_percentage_stat key disp) v of Inl e \<Rightarrow> None | Inr r \<Rightarrow> r)"
proof -
  have "stats \<noteq> []" using assms(1) by auto
  then show ?thesis
    using assms by (simp add: extract_stat_value_def extract_try_def id_loop_find)
qed

lemma extract_by_index:
  assumes "find (\<lambda>st. s_id st = Some key \<and> s_value st \<noteq> None) stats = None"
    and "int_of_str key = Some idx" and "0 \<le> idx" and "idx < int (length stats)"
    and "s_value (stats ! nat idx) = Some v"
  shows "extract_stat_value stats key disp =
           (case read_value (case s_display (stats ! nat idx) of
                               Some d \<Rightarrow> CHR ''%'' \<in> set d | None \<Rightarrow> False) v of
              Inl e \<Rightarrow> None | Inr r \<Rightarrow> r)"
proof -
  have "stats \<noteq> []" using assms(3,4) by auto
  then show ?thesis
    using assms by (simp add: extract_stat_value_def extract_try_def id_loop_find)
qed


lemma read_value_unparseable:
  assumes "py_float val \<in> {Inl ValueError, Inl TypeError}"
  shows "read_value False val =
           Inr (if val \<in> {VNone, VStr '''', VAttr False, VStr ''/''} then None else Some val)"
  using assms
  by (cases val) (auto simp: read_value_def split: pyval.splits option.splits)

text \<open>An int beyond the doubles is no parse failure of lines 384 to 387: the
  OverflowError of \<open>float()\<close> leaves the inner \<open>try\<close>, the outer handler takes it, and
  the value read is \<open>None\<close>, in a percentage category as in any other.\<close>

lemma read_value_overflow:
  assumes "2 ^ 1024 \<le> \<bar>r\<bar>"
  shows "read_value p (VNum r) = Inl OverflowError"
proof -
  have f: "py_float (VNum r) = Inl OverflowError"
    by (rule py_float_overflow [OF assms])
  show ?thesis
    by (simp add: read_value_def convert_percentage_value_def f del: py_float.simps)
qed

lemma extract_overflow_None:
  assumes "find (\<lambda>st. s_id st = Some key \<and> s_value st \<noteq> None) stats = Some st"
    and "s_value st = Some (VNum r)" and "2 ^ 1024 \<le> \<bar>r\<bar>"
  shows "extract_stat_value stats key disp = None"
  by (simp only: extract_by_id [OF assms(1) assms(2)] read_value_overflow [OF assms(3)] sum.case)

lemma collect_values_append:
  "collect_values lk sel k nm (xs @ ys) =
     (fst (collect_values lk sel k nm xs) @ fst (collect_values lk sel k nm ys),
      snd (collect_values lk sel k nm xs) @ snd (collect_values lk sel k nm ys))"
  by (induction xs) (auto split: prod.splits option.splits)




text \<open>
  C10. In a category that is not a percentage, a value that \<open>float()\<close> rejects with
  ValueError or TypeError, the two exceptions the parse of lines 384 to 387 catches, is
  returned as it is when it is not empty. It is read as \<open>None\<close> when it is empty or falsy
  (\<open>None\<close>, the empty string, an empty \<open>APIAttr\<close>) or is the placeholder \<open>/\<close>, which the
  guard before the parse has already sent to \<open>None\<close>. On the path by index the category
  counts as no percentage when the display name of the stat found there has no percent
  sign.
\<close>

theorem unparseable_value_pass_through:
  "(find (\<lambda>st. s_id st = Some key \<and> s_value st \<noteq> None) stats = Some st
      \<and> s_value st = Some val \<and> \<not> is_percentage_stat key disp \<and> py_float val \<in> {Inl ValueError, Inl TypeError}
      \<longrightarrow> extract_stat_value stats key disp
            = (if val \<in> {VNone, VStr '''', VAttr False, VStr ''/''} then None else Some val))
   \<and> (find (\<lambda>st. s_id st = Some key \<and> s_value st \<noteq> None) stats = None
      \<and> int_of_str key = Some idx \<and> 0 \<le> idx \<and> idx < int (length stats)
      \<and> s_value (stats ! nat idx) = Some val
      \<and> (case s_display (stats ! nat idx) of Some d \<Rightarrow> CHR ''%'' \<notin> set d | None \<Rightarrow> True)
      \<and> py_float val \<in> {Inl ValueError, Inl TypeError}
      \<longrightarrow> extract_stat_value stats key disp
            = (if val \<in> {VNone, VStr '''', VAttr False, VStr ''/''} then None else Some val))"
proof (intro conjI impI)
  assume "find (\<lambda>st. s_id st = Some key \<and> s_value st \<noteq> None) stats = Some st
      \<and> s_value st = Some val \<and> \<not> is_percentage_stat key disp \<and> py_float val \<in> {Inl ValueError, Inl TypeError}"
  then show "extract_stat_value stats key disp
            = (if val \<in> {VNone, VStr '''', VAttr False, VStr ''/''} then None else Some val)"
    by (simp only: extract_by_id read_value_unparseable sum.case)
next
  assume h: "find (\<lambda>st. s_id st = Some key \<and> s_value st \<noteq> None) stats = None
      \<and> int_of_str key = Some idx \<and> 0 \<le> idx \<and> idx < int (length stats)
      \<and> s_value (stats ! nat idx) = Some val
      \<and> (case s_display (stats ! nat idx) of Some d \<Rightarrow> CHR ''%'' \<notin> set d | None \<Rightarrow> True)
      \<and> py_float val \<in> {Inl ValueError, Inl TypeError}"
  then have "(case s_display (stats ! nat idx) of Some d \<Rightarrow> CHR ''%'' \<in> set d | None \<Rightarrow> False)
               = False"
    by (auto split: option.splits)
  with h show "extract_stat_value stats key disp
            = (if val \<in> {VNone, VStr '''', VAttr False, VStr ''/''} then None else Some val)"
    by (simp only: extract_by_index read_value_unparseable sum.case)
qed

theorem unparseable_value_pass_through_witness:
  "extract_stat_value (one_stat ''12'' ''PTS'' (VStr ''n/a'')) ''12'' (Some ''PTS'')
     = Some (VStr ''n/a'')
   \<and> extract_stat_value (one_stat ''12'' ''PTS'' VNone) ''12'' (Some ''PTS'') = None
   \<and> extract_stat_value [\<lparr>s_id = None, s_display = Some ''PTS'', s_value = Some (VAttr True)\<rparr>]
        ''0'' (Some ''PTS'') = Some (VAttr True)"
proof -
  let ?s = "\<lparr>s_id = Some ''12'', s_display = Some ''PTS'', s_value = Some (VStr ''n/a'')\<rparr>"
  let ?n = "\<lparr>s_id = Some ''12'', s_display = Some ''PTS'', s_value = Some VNone\<rparr>"
  let ?t = "\<lparr>s_id = None, s_display = Some ''PTS'', s_value = Some (VAttr True)\<rparr>"
  have p: "\<not> is_percentage_stat ''12'' (Some ''PTS'')" by (simp add: is_percentage_stat_def)
  have "py_float (VStr ''n/a'') = Inl ValueError" by code_simp
  then have f: "py_float (VStr ''n/a'') \<in> {Inl ValueError, Inl TypeError}" by simp
  have a: "find (\<lambda>st. s_id st = Some ''12'' \<and> s_value st \<noteq> None)
             (one_stat ''12'' ''PTS'' (VStr ''n/a'')) = Some ?s
           \<and> s_value ?s = Some (VStr ''n/a'') \<and> \<not> is_percentage_stat ''12'' (Some ''PTS'')
           \<and> py_float (VStr ''n/a'') \<in> {Inl ValueError, Inl TypeError}"
    using p f by (simp add: one_stat_def)
  have c1: "extract_stat_value (one_stat ''12'' ''PTS'' (VStr ''n/a'')) ''12'' (Some ''PTS'')
              = Some (VStr ''n/a'')"
    using a unparseable_value_pass_through
      [where stats = "one_stat ''12'' ''PTS'' (VStr ''n/a'')" and key = "''12''" and st = ?s
         and val = "VStr ''n/a''" and disp = "Some ''PTS''"]
    by simp
  have a2: "find (\<lambda>st. s_id st = Some ''12'' \<and> s_value st \<noteq> None)
             (one_stat ''12'' ''PTS'' VNone) = Some ?n
           \<and> s_value ?n = Some VNone \<and> \<not> is_percentage_stat ''12'' (Some ''PTS'')
           \<and> py_float VNone \<in> {Inl ValueError, Inl TypeError}"
    using p by (simp add: one_stat_def)
  have c2: "extract_stat_value (one_stat ''12'' ''PTS'' VNone) ''12'' (Some ''PTS'') = None"
    using a2 unparseable_value_pass_through
      [where stats = "one_stat ''12'' ''PTS'' VNone" and key = "''12''" and st = ?n
         and val = VNone and disp = "Some ''PTS''"]
    by simp
  have i: "int_of_str ''0'' = Some 0" by code_simp
  have b: "find (\<lambda>st. s_id st = Some ''0'' \<and> s_value st \<noteq> None) [?t] = None
           \<and> int_of_str ''0'' = Some 0 \<and> (0::int) \<le> 0 \<and> 0 < int (length [?t])
           \<and> s_value ([?t] ! nat 0) = Some (VAttr True)
           \<and> (case s_display ([?t] ! nat 0) of Some d \<Rightarrow> CHR ''%'' \<notin> set d | None \<Rightarrow> True)
           \<and> py_float (VAttr True) \<in> {Inl ValueError, Inl TypeError}"
    using i by simp
  have c3: "extract_stat_value [?t] ''0'' (Some ''PTS'') = Some (VAttr True)"
    using b unparseable_value_pass_through
      [where stats = "[?t]" and key = "''0''" and idx = 0 and val = "VAttr True"
         and disp = "Some ''PTS''"]
    by simp
  show ?thesis using c1 c2 c3 by blast
qed

section \<open>League comparator\<close>










lemma mset_stable_sort: "mset (stable_sort f rv xs) = mset xs"
  by (simp add: stable_sort_def)




lemma py_gt_error: "py_gt a b = Inl e \<Longrightarrow> e = TypeError"
  by (auto simp: py_gt_def split: if_splits pyval.splits)

lemma py_lt_error: "py_lt a b = Inl e \<Longrightarrow> e = TypeError"
  by (auto simp: py_lt_def split: if_splits pyval.splits)

lemma count_beaten_char:
  "count_beaten hib sel xs =
     (if \<forall>x \<in> set xs. \<not> isl (if hib then py_gt sel (snd x) else py_lt sel (snd x))
      then Inr (length (filter
             (\<lambda>x. (if hib then py_gt sel (snd x) else py_lt sel (snd x)) = Inr True) xs))
      else Inl TypeError)"
proof (induction xs)
  case Nil
  show ?case by simp
next
  case (Cons x xs)
  obtain nm val where x: "x = (nm, val)" by (cases x)
  show ?case
  proof (cases hib)
    case True
    show ?thesis
    proof (cases "py_gt sel val")
      case (Inl e)
      then have "e = TypeError" by (rule py_gt_error)
      with Inl True show ?thesis by (simp add: x)
    next
      case (Inr b)
      with True Cons.IH show ?thesis by (cases b) (simp_all add: x)
    qed
  next
    case False
    show ?thesis
    proof (cases "py_lt sel val")
      case (Inl e)
      then have "e = TypeError" by (rule py_lt_error)
      with Inl False show ?thesis by (simp add: x)
    next
      case (Inr b)
      with False Cons.IH show ?thesis by (cases b) (simp_all add: x)
    qed
  qed
qed

lemma count_beaten_perm:
  assumes "mset xs = mset ys"
  shows "count_beaten hib sel xs = count_beaten hib sel ys"
proof -
  have s: "set xs = set ys" using assms by (rule mset_eq_setD)
  have "length (filter P xs) = length (filter P ys)" for P
  proof -
    have "size (mset (filter P xs)) = size (mset (filter P ys))"
      by (simp only: mset_filter assms)
    then show ?thesis by (simp only: size_mset)
  qed
  then show ?thesis by (simp only: count_beaten_char s)
qed

lemma count_beaten_le: "count_beaten hib sel xs = Inr n \<Longrightarrow> n \<le> length xs"
  by (auto simp: count_beaten_char split: if_splits)

lemma collect_values_Cons:
  "collect_values lk sel k nm (it # rest) =
     (fst (collect_values lk sel k nm [it]) @ fst (collect_values lk sel k nm rest),
      snd (collect_values lk sel k nm [it]) @ snd (collect_values lk sel k nm rest))"
  using collect_values_append [of lk sel k nm "[it]" rest] by simp

lemma mset_collect_values:
  "mset (fst (collect_values lk sel k nm ats)) =
     (\<Sum>it \<in># mset ats. mset (fst (collect_values lk sel k nm [it])))"
  "mset (snd (collect_values lk sel k nm ats)) =
     (\<Sum>it \<in># mset ats. mset (snd (collect_values lk sel k nm [it])))"
proof (induction ats)
  case Nil
  {
    case 1 show ?case by simp
  next
    case 2 show ?case by simp
  }
next
  case (Cons it rest)
  {
    case 1 show ?case by (simp only: collect_values_Cons [of _ _ _ _ it rest] fst_conv
          mset_append Cons.IH mset.simps image_mset_add_mset sum_mset.add_mset)
  next
    case 2 show ?case by (simp only: collect_values_Cons [of _ _ _ _ it rest] snd_conv
          mset_append Cons.IH mset.simps image_mset_add_mset sum_mset.add_mset)
  }
qed

lemma collect_values_perm:
  assumes "mset ats' = mset ats"
  shows "mset (fst (collect_values lk sel k nm ats')) = mset (fst (collect_values lk sel k nm ats))"
    and "mset (snd (collect_values lk sel k nm ats')) = mset (snd (collect_values lk sel k nm ats))"
proof -
  have "mset (fst (collect_values lk sel k nm ats')) =
          (\<Sum>it \<in># mset ats'. mset (fst (collect_values lk sel k nm [it])))"
    by (rule mset_collect_values(1))
  also have "\<dots> = (\<Sum>it \<in># mset ats. mset (fst (collect_values lk sel k nm [it])))"
    by (simp only: assms)
  also have "\<dots> = mset (fst (collect_values lk sel k nm ats))"
    by (rule mset_collect_values(1) [symmetric])
  finally show "mset (fst (collect_values lk sel k nm ats'))
                  = mset (fst (collect_values lk sel k nm ats))" .
  have "mset (snd (collect_values lk sel k nm ats')) =
          (\<Sum>it \<in># mset ats'. mset (snd (collect_values lk sel k nm [it])))"
    by (rule mset_collect_values(2))
  also have "\<dots> = (\<Sum>it \<in># mset ats. mset (snd (collect_values lk sel k nm [it])))"
    by (simp only: assms)
  also have "\<dots> = mset (snd (collect_values lk sel k nm ats))"
    by (rule mset_collect_values(2) [symmetric])
  finally show "mset (snd (collect_values lk sel k nm ats'))
                  = mset (snd (collect_values lk sel k nm ats))" .
qed

lemma mset_binary_insert: "mset (binary_insert lt ys x) = add_mset x (mset ys)"
proof -
  have "mset (take l ys) + mset (drop l ys) = mset ys" for l
    by (metis append_take_drop_id mset_append)
  then show ?thesis
    by (simp add: binary_insert_def Let_def)
qed

lemma mset_foldl_binary_insert:
  "mset (foldl (binary_insert lt) acc xs) = mset acc + mset xs"
  by (induction xs arbitrary: acc) (simp_all add: mset_binary_insert)

lemma mset_insertion_sort: "mset (insertion_sort lt xs) = mset xs"
proof -
  have a: "mset (foldl (binary_insert lt) (take n xs) (drop n xs)) = mset xs" for n
    by (metis append_take_drop_id mset_append mset_foldl_binary_insert)
  have b: "mset (foldl (binary_insert lt) (rev (take n xs)) (drop n xs)) = mset xs" for n
    by (metis append_take_drop_id mset_append mset_foldl_binary_insert mset_rev)
  show ?thesis
    by (simp only: insertion_sort_def Let_def a b split: list.split if_split) simp
qed

lemma py_sorted_mset: "py_sorted rv xs = Inr ys \<Longrightarrow> mset ys = mset xs"
  by (auto simp: py_sorted_def mset_stable_sort mset_insertion_sort split: if_splits)

lemma py_sorted_perm:
  assumes "mset xs' = mset xs" and "py_sorted rv xs = Inr ys"
  shows "\<exists>ys'. py_sorted rv xs' = Inr ys'"
proof -
  have l: "length xs' = length xs"
    using assms(1) by (rule mset_eq_length)
  have s: "set xs' = set xs" using assms(1) by (rule mset_eq_setD)
  show ?thesis
    using assms(2) by (auto simp: py_sorted_def l list_all_iff s split: if_splits)
qed

lemma category_row_RowE:
  assumes "category_row sel ss lk ats ci = Inr (Row r)"
  obtains v all_values other_values b bs where
    "extract_stat_value ss (category_key ci) (Some (c_name ci)) = Some v"
    "collect_values lk sel (category_key ci) (c_name ci) ats = (all_values, other_values)"
    "all_values \<noteq> []"
    "py_sorted (\<not> is_lower_better_stat (c_name ci) (Some (category_key ci))) all_values
       = Inr (b # bs)"
    "other_values = [] \<Longrightarrow> r_tally r = None \<and> r_vs_teams r = ''0/0''"
    "other_values \<noteq> [] \<Longrightarrow>
       \<exists>n c. count_beaten (\<not> is_lower_better_stat (c_name ci) (Some (category_key ci))) v
                other_values = Inr n
         \<and> get_color_for_performance n (length other_values) = Inr c
         \<and> r_tally r = Some (n, length other_values)
         \<and> r_vs_teams r = str_nat n @ ''/'' @ str_nat (length other_values)"
proof -
  let ?k = "category_key ci" and ?nm = "c_name ci"
  let ?hib = "\<not> is_lower_better_stat (c_name ci) (Some (category_key ci))"
  note d = category_row_def Let_def
  obtain v where v: "extract_stat_value ss ?k (Some ?nm) = Some v"
    using assms by (cases "extract_stat_value ss ?k (Some ?nm)") (simp_all add: d)
  obtain all_values other_values where
    cv: "collect_values lk sel ?k ?nm ats = (all_values, other_values)"
    by (cases "collect_values lk sel ?k ?nm ats")
  have ne: "all_values \<noteq> []"
    using assms v cv by (cases "all_values = []") (simp_all add: d)
  obtain ys where ys: "py_sorted ?hib all_values = Inr ys"
    using assms v cv ne by (cases "py_sorted ?hib all_values") (simp_all add: d)
  obtain b bs where bs: "ys = b # bs"
    using assms v cv ne ys by (cases ys) (simp_all add: d)
  have none: "r_tally r = None \<and> r_vs_teams r = ''0/0''" if "other_values = []"
    using assms v cv ne ys bs that by (auto simp: d)
  have some: "\<exists>n c. count_beaten ?hib v other_values = Inr n
         \<and> get_color_for_performance n (length other_values) = Inr c
         \<and> r_tally r = Some (n, length other_values)
         \<and> r_vs_teams r = str_nat n @ ''/'' @ str_nat (length other_values)"
    if o: "other_values \<noteq> []"
  proof -
    obtain n where n: "count_beaten ?hib v other_values = Inr n"
      using assms v cv ne ys bs o
      by (cases "count_beaten ?hib v other_values") (simp_all add: d)
    obtain c where c: "get_color_for_performance n (length other_values) = Inr c"
      using assms v cv ne ys bs o n
      by (cases "get_color_for_performance n (length other_values)") (simp_all add: d)
    show ?thesis
      using assms v cv ne ys bs o n c by (auto simp: d)
  qed
  have srt: "py_sorted ?hib all_values = Inr (b # bs)"
    using ys bs by simp
  show ?thesis
    by (rule that [OF v cv ne srt none some])
qed

lemma category_row_no_others:
  assumes "extract_stat_value ss (category_key ci) (Some (c_name ci)) = Some v"
    and "collect_values lk sel (category_key ci) (c_name ci) ats = (all_values, [])"
    and "py_sorted (\<not> is_lower_better_stat (c_name ci) (Some (category_key ci))) all_values
           = Inr (b # bs)"
  shows "category_row sel ss lk ats ci =
           Inr (Row \<lparr>r_category = c_name ci, r_selected = v, r_tally = None,
                      r_vs_teams = ''0/0'', r_vs_teams_colored = ''-'',
                      r_best = b, r_worst = last (b # bs)\<rparr>)"
proof -
  have "all_values \<noteq> []"
    using py_sorted_mset [OF assms(3)] by auto
  then show ?thesis
    using assms by (simp add: category_row_def Let_def)
qed

lemma category_row_others:
  assumes "extract_stat_value ss (category_key ci) (Some (c_name ci)) = Some v"
    and "collect_values lk sel (category_key ci) (c_name ci) ats = (all_values, other_values)"
    and "py_sorted (\<not> is_lower_better_stat (c_name ci) (Some (category_key ci))) all_values
           = Inr (b # bs)"
    and "other_values \<noteq> []"
    and "count_beaten (\<not> is_lower_better_stat (c_name ci) (Some (category_key ci))) v
           other_values = Inr n"
    and "get_color_for_performance n (length other_values) = Inr c"
  shows "category_row sel ss lk ats ci =
           Inr (Row \<lparr>r_category = c_name ci, r_selected = v,
                      r_tally = Some (n, length other_values),
                      r_vs_teams = str_nat n @ ''/'' @ str_nat (length other_values),
                      r_vs_teams_colored =
                        c @ (str_nat n @ ''/'' @ str_nat (length other_values)) @ RESET,
                      r_best = b, r_worst = last (b # bs)\<rparr>)"
proof -
  have "all_values \<noteq> []"
    using py_sorted_mset [OF assms(3)] by auto
  then show ?thesis
    using assms by (simp add: category_row_def Let_def)
qed

text \<open>
  C6. In every row with a tally, the count of opponents beaten is at most the number of
  comparable opponents, which is the length of \<open>other_values\<close>; and when the items of
  \<open>all_team_stats\<close> are supplied in another order, the category still has a row, with
  the same tally and the same ratio.
\<close>

theorem beaten_count_bounded_order_independent:
  assumes "category_row sel ss lk ats ci = Inr (Row r)"
  shows "(\<forall>b n. r_tally r = Some (b, n) \<longrightarrow>
            b \<le> n \<and> n = length (snd (collect_values lk sel (category_key ci) (c_name ci) ats)))
       \<and> (\<forall>ats'. mset ats' = mset ats \<longrightarrow>
            (\<exists>r'. category_row sel ss lk ats' ci = Inr (Row r')
               \<and> r_tally r' = r_tally r \<and> r_vs_teams r' = r_vs_teams r))"
proof -
  let ?k = "category_key ci" and ?nm = "c_name ci"
  let ?hib = "\<not> is_lower_better_stat (c_name ci) (Some (category_key ci))"
  from assms obtain v all_values other_values b bs where
    v: "extract_stat_value ss ?k (Some ?nm) = Some v"
    and cv: "collect_values lk sel ?k ?nm ats = (all_values, other_values)"
    and ne: "all_values \<noteq> []"
    and srt: "py_sorted ?hib all_values = Inr (b # bs)"
    and none: "other_values = [] \<Longrightarrow> r_tally r = None \<and> r_vs_teams r = ''0/0''"
    and some: "other_values \<noteq> [] \<Longrightarrow>
       \<exists>n c. count_beaten ?hib v other_values = Inr n
         \<and> get_color_for_performance n (length other_values) = Inr c
         \<and> r_tally r = Some (n, length other_values)
         \<and> r_vs_teams r = str_nat n @ ''/'' @ str_nat (length other_values)"
    by (rule category_row_RowE) blast
  have bound: "\<forall>b n. r_tally r = Some (b, n) \<longrightarrow>
            b \<le> n \<and> n = length (snd (collect_values lk sel ?k ?nm ats))"
  proof (cases "other_values = []")
    case True
    then show ?thesis using none by simp
  next
    case False
    then show ?thesis using some cv by (auto dest: count_beaten_le)
  qed
  have perm: "\<exists>r'. category_row sel ss lk ats' ci = Inr (Row r')
               \<and> r_tally r' = r_tally r \<and> r_vs_teams r' = r_vs_teams r"
    if p: "mset ats' = mset ats" for ats'
  proof -
    obtain all' others' where cv': "collect_values lk sel ?k ?nm ats' = (all', others')"
      by (cases "collect_values lk sel ?k ?nm ats'")
    have ma: "mset all' = mset all_values"
      using collect_values_perm(1) [OF p, of lk sel ?k ?nm] cv cv' by simp
    have mo: "mset others' = mset other_values"
      using collect_values_perm(2) [OF p, of lk sel ?k ?nm] cv cv' by simp
    obtain ys' where srt': "py_sorted ?hib all' = Inr ys'"
      using py_sorted_perm [OF ma srt] by blast
    have "mset ys' = mset all_values"
      using py_sorted_mset [OF srt'] ma by simp
    then have "ys' \<noteq> []" using ne by auto
    then obtain b' bs' where ys': "ys' = b' # bs'" by (cases ys') auto
    have lo: "length others' = length other_values"
      using mo by (rule mset_eq_length)
    have srt'': "py_sorted ?hib all' = Inr (b' # bs')"
      using srt' ys' by simp
    show ?thesis
    proof (cases "other_values = []")
      case True
      then have "others' = []" using lo by simp
      then have cv'': "collect_values lk sel ?k ?nm ats' = (all', [])"
        using cv' by simp
      have "category_row sel ss lk ats' ci =
           Inr (Row \<lparr>r_category = c_name ci, r_selected = v, r_tally = None,
                      r_vs_teams = ''0/0'', r_vs_teams_colored = ''-'',
                      r_best = b', r_worst = last (b' # bs')\<rparr>)"
        by (rule category_row_no_others [OF v cv'' srt''])
      then show ?thesis
        using none [OF True] by simp
    next
      case False
      then have ne': "others' \<noteq> []" using lo by auto
      from some [OF False] obtain n c where
        n: "count_beaten ?hib v other_values = Inr n"
        and c: "get_color_for_performance n (length other_values) = Inr c"
        and t: "r_tally r = Some (n, length other_values)"
        and s: "r_vs_teams r = str_nat n @ ''/'' @ str_nat (length other_values)"
        by blast
      have n': "count_beaten ?hib v others' = Inr n"
        using count_beaten_perm [OF mo, of ?hib v] n by simp
      have c': "get_color_for_performance n (length others') = Inr c"
        using c lo by simp
      have "category_row sel ss lk ats' ci =
           Inr (Row \<lparr>r_category = c_name ci, r_selected = v,
                      r_tally = Some (n, length others'),
                      r_vs_teams = str_nat n @ ''/'' @ str_nat (length others'),
                      r_vs_teams_colored =
                        c @ (str_nat n @ ''/'' @ str_nat (length others')) @ RESET,
                      r_best = b', r_worst = last (b' # bs')\<rparr>)"
        by (rule category_row_others [OF v cv' srt'' ne' n' c'])
      then show ?thesis
        using t s lo by simp
    qed
  qed
  show ?thesis
  proof (intro conjI allI impI)
    fix b n assume "r_tally r = Some (b, n)"
    with bound show "b \<le> n" by blast
  next
    fix b n assume "r_tally r = Some (b, n)"
    with bound show "n = length (snd (collect_values lk sel ?k ?nm ats))" by blast
  next
    fix ats' assume "mset ats' = mset ats"
    then show "\<exists>r'. category_row sel ss lk ats' ci = Inr (Row r')
               \<and> r_tally r' = r_tally r \<and> r_vs_teams r' = r_vs_teams r"
      by (rule perm)
  qed
qed

theorem beaten_count_bounded_order_independent_witness:
  "(1::nat) \<le> 3
   \<and> (\<exists>r'. category_row 1 (one_stat ''19'' ''TO'' (VNum 5)) (team_lookup league4)
          [(3, one_stat ''19'' ''TO'' (VNum 7)), (1, one_stat ''19'' ''TO'' (VNum 5)),
           (4, one_stat ''19'' ''TO'' (VNum 5)), (2, one_stat ''19'' ''TO'' (VNum 3))]
          \<lparr>c_id = ''19'', c_name = ''TO'', c_index = 0\<rparr> = Inr (Row r')
        \<and> r_tally r' = Some (1, 3) \<and> r_vs_teams r' = ''1/3'')"
proof -
  let ?ats = "[(1, one_stat ''19'' ''TO'' (VNum 5)), (2, one_stat ''19'' ''TO'' (VNum 3)),
       (3, one_stat ''19'' ''TO'' (VNum 7)), (4, one_stat ''19'' ''TO'' (VNum 5))]"
  let ?ats' = "[(3, one_stat ''19'' ''TO'' (VNum 7)), (1, one_stat ''19'' ''TO'' (VNum 5)),
           (4, one_stat ''19'' ''TO'' (VNum 5)), (2, one_stat ''19'' ''TO'' (VNum 3))]"
  let ?r = "\<lparr>r_category = ''TO'', r_selected = VNum 5, r_tally = Some (1, 3),
                 r_vs_teams = ''1/3'', r_vs_teams_colored = YELLOW @ ''1/3'' @ RESET,
                 r_best = (''B'', VNum 3), r_worst = (''C'', VNum 7)\<rparr>"
  have row: "category_row 1 (one_stat ''19'' ''TO'' (VNum 5)) (team_lookup league4) ?ats
      \<lparr>c_id = ''19'', c_name = ''TO'', c_index = 0\<rparr> = Inr (Row ?r)"
    by code_simp
  have p: "mset ?ats' = mset ?ats"
    by (simp add: add_mset_commute)
  have t: "r_tally ?r = Some (1, 3)" by simp
  from beaten_count_bounded_order_independent [OF row] t p
  have "(1::nat) \<le> 3" and
    "\<exists>r'. category_row 1 (one_stat ''19'' ''TO'' (VNum 5)) (team_lookup league4) ?ats'
          \<lparr>c_id = ''19'', c_name = ''TO'', c_index = 0\<rparr> = Inr (Row r')
        \<and> r_tally r' = r_tally ?r \<and> r_vs_teams r' = r_vs_teams ?r"
    by blast+
  then show ?thesis by simp
qed

section \<open>No comparable opponent\<close>

lemma collect_values_no_selected:
  "sel \<notin> fst ` set ats \<Longrightarrow>
     fst (collect_values lk sel k nm ats) = snd (collect_values lk sel k nm ats)"
  by (induction ats) (auto split: prod.splits option.splits)

lemma collect_values_alone:
  assumes "distinct (map fst ats)" and "snd (collect_values lk sel k nm ats) = []"
  shows "length (fst (collect_values lk sel k nm ats)) \<le> 1"
  using assms
proof (induction ats)
  case Nil
  show ?case by simp
next
  case (Cons it rest)
  obtain tid stats where it: "it = (tid, stats)" by (cases it)
  obtain a b where r: "collect_values lk sel k nm rest = (a, b)"
    by (cases "collect_values lk sel k nm rest")
  have d: "distinct (map fst rest)" and nin: "tid \<notin> fst ` set rest"
    using Cons.prems(1) it by auto
  have b: "b = []"
    using Cons.prems(2) it r by (auto split: option.splits if_splits)
  then have ih: "length a \<le> 1"
    using Cons.IH [OF d] r by simp
  show ?case
  proof (cases "tid = sel")
    case True
    then have "a = b"
      using collect_values_no_selected [of sel rest lk k nm] nin r by simp
    then show ?thesis
      using b it r by (auto split: option.splits)
  next
    case False
    then show ?thesis
      using Cons.prems(2) it r ih by (auto split: option.splits)
  qed
qed

lemma get_color_for_performance_total:
  "\<exists>c. get_color_for_performance b t = Inr c"
  by (simp add: get_color_for_performance_def py_truediv_def)

text \<open>
  C9. When the selected team has a value for the category and no other team has one
  (\<open>other_values\<close> is empty while \<open>all_values\<close> is not), the row carries the ratio
  \<open>0/0\<close>, no tally and no colour: its coloured cell is the plain dash. The colour
  function returns the reset code for a count of zero and never raises
  ZeroDivisionError, whatever its arguments.
\<close>

theorem no_opponents_row:
  assumes "distinct (map fst ats)"
    and "extract_stat_value ss (category_key ci) (Some (c_name ci)) = Some v"
    and "collect_values lk sel (category_key ci) (c_name ci) ats = (all_values, [])"
    and "all_values \<noteq> []"
  shows "(\<exists>r. category_row sel ss lk ats ci = Inr (Row r)
            \<and> r_vs_teams r = ''0/0'' \<and> r_vs_teams_colored r = ''-'' \<and> r_tally r = None)
       \<and> get_color_for_performance b 0 = Inr RESET
       \<and> (\<forall>n t. \<exists>c. get_color_for_performance n t = Inr c)"
proof -
  let ?hib = "\<not> is_lower_better_stat (c_name ci) (Some (category_key ci))"
  have "length all_values \<le> 1"
    using collect_values_alone [OF assms(1), of lk sel "category_key ci" "c_name ci"] assms(3)
    by simp
  then have "py_sorted ?hib all_values = Inr all_values"
    by (simp add: py_sorted_def)
  moreover obtain x xs where "all_values = x # xs"
    using assms(4) by (cases all_values) auto
  ultimately have srt: "py_sorted ?hib all_values = Inr (x # xs)"
    by simp
  have "category_row sel ss lk ats ci =
           Inr (Row \<lparr>r_category = c_name ci, r_selected = v, r_tally = None,
                      r_vs_teams = ''0/0'', r_vs_teams_colored = ''-'',
                      r_best = x, r_worst = last (x # xs)\<rparr>)"
    by (rule category_row_no_others [OF assms(2) assms(3) srt])
  then have "\<exists>r. category_row sel ss lk ats ci = Inr (Row r)
            \<and> r_vs_teams r = ''0/0'' \<and> r_vs_teams_colored r = ''-'' \<and> r_tally r = None"
    by simp
  moreover have "get_color_for_performance b 0 = Inr RESET"
    by (simp add: get_color_for_performance_def)
  ultimately show ?thesis
    using get_color_for_performance_total by blast
qed

theorem no_opponents_row_witness:
  "(\<exists>r. category_row 1 (one_stat ''12'' ''PTS'' (VNum 100)) (team_lookup league4)
          [(1, one_stat ''12'' ''PTS'' (VNum 100)), (2, one_stat ''12'' ''PTS'' (VStr ''/'')),
           (3, one_stat ''12'' ''PTS'' (VStr ''''))]
          \<lparr>c_id = ''12'', c_name = ''PTS'', c_index = 0\<rparr> = Inr (Row r)
        \<and> r_vs_teams r = ''0/0'' \<and> r_vs_teams_colored r = ''-'' \<and> r_tally r = None)
   \<and> get_color_for_performance 0 0 = Inr RESET"
proof -
  let ?ats = "[(1::int, one_stat ''12'' ''PTS'' (VNum 100)), (2, one_stat ''12'' ''PTS'' (VStr ''/'')),
           (3, one_stat ''12'' ''PTS'' (VStr ''''))]"
  let ?ci = "\<lparr>c_id = ''12'', c_name = ''PTS'', c_index = 0\<rparr>"
  have d: "distinct (map fst ?ats)" by simp
  have v: "extract_stat_value (one_stat ''12'' ''PTS'' (VNum 100)) (category_key ?ci)
             (Some (c_name ?ci)) = Some (VNum 100)"
    by code_simp
  have c: "collect_values (team_lookup league4) 1 (category_key ?ci) (c_name ?ci) ?ats
             = ([(''Mine'', VNum 100)], [])"
    by code_simp
  have n: "[(''Mine'', VNum 100)] \<noteq> []" by simp
  show ?thesis
    using no_opponents_row [OF d v c n, of 0] by blast
qed

section \<open>Head-to-head scorer\<close>

lemma category_outcome_skip_iff:
  "category_outcome ss opp ci = Inr None \<longleftrightarrow>
     c_id ci = [] \<or> extract_stat_value ss (c_id ci) (Some (c_name ci)) = None
     \<or> extract_stat_value opp (c_id ci) (Some (c_name ci)) = None"
  by (auto simp: category_outcome_def Let_def split: option.splits sum.splits bool.splits)

lemma tally_loop_count:
  "tally_loop ss opp cats (w, l, res) = Inr (w', l', res') \<Longrightarrow>
     w' + l' + length (filter (\<lambda>cr. snd cr = T) res') =
       w + l + length (filter (\<lambda>cr. snd cr = T) res)
         + length (filter (\<lambda>ci. category_outcome ss opp ci \<noteq> Inr None) cats)"
proof (induction cats arbitrary: w l res)
  case Nil
  then show ?case by simp
next
  case (Cons ci cats)
  show ?case
  proof (cases "category_outcome ss opp ci")
    case (Inl e)
    with Cons.prems show ?thesis by simp
  next
    case (Inr r)
    show ?thesis
    proof (cases r)
      case None
      with Inr Cons.prems Cons.IH [of w l res] show ?thesis by simp
    next
      case (Some oc)
      show ?thesis
      proof (cases oc)
        case W
        with Some Inr Cons.prems Cons.IH [of "w + 1" l "res @ [(c_name ci, W)]"]
        show ?thesis by simp
      next
        case L
        with Some Inr Cons.prems Cons.IH [of w "l + 1" "res @ [(c_name ci, L)]"]
        show ?thesis by simp
      next
        case T
        with Some Inr Cons.prems Cons.IH [of w l "res @ [(c_name ci, T)]"]
        show ?thesis by simp
      qed
    qed
  qed
qed

lemma length_filter_eq_conv: "length (filter P xs) = length xs \<longleftrightarrow> (\<forall>x \<in> set xs. P x)"
proof (induction xs)
  case Nil
  show ?case by simp
next
  case (Cons x xs)
  show ?case
  proof (cases "P x")
    case True
    with Cons show ?thesis by simp
  next
    case False
    have "length (filter P xs) < Suc (length xs)"
      by (simp add: le_imp_less_Suc)
    then have "length (filter P xs) \<noteq> Suc (length xs)" by simp
    with False show ?thesis by simp
  qed
qed

lemma matchup_loop_member:
  "matchup_loop sid ss lk cats ats = Inr ms \<Longrightarrow> r \<in> set ms \<Longrightarrow>
     \<exists>tid opp. (tid, opp) \<in> set ats \<and> tid \<noteq> sid \<and> lk tid = Some (m_team r)
       \<and> tally_loop ss opp cats (0, 0, []) = Inr (m_wins r, m_losses r, m_category_results r)"
proof (induction ats arbitrary: ms)
  case Nil
  then show ?case by simp
next
  case (Cons it rest)
  obtain tid opp where it: "it = (tid, opp)" by (cases it)
  show ?case
  proof (cases "tid = sid \<or> lk tid = None")
    case True
    then have "matchup_loop sid ss lk cats rest = Inr ms"
      using Cons.prems(1) it by (auto split: if_splits)
    from Cons.IH [OF this Cons.prems(2)] show ?thesis by auto
  next
    case False
    then obtain tm where tm: "lk tid = Some tm" and ne: "tid \<noteq> sid" by auto
    obtain w l res where tl: "tally_loop ss opp cats (0, 0, []) = Inr (w, l, res)"
      using Cons.prems(1) it tm ne
      by (cases "tally_loop ss opp cats (0, 0, [])") auto
    obtain ms' where ms': "matchup_loop sid ss lk cats rest = Inr ms'"
      using Cons.prems(1) it tm ne tl
      by (cases "matchup_loop sid ss lk cats rest") auto
    have ms: "ms = \<lparr>m_team = tm, m_score = str_nat w @ ''-'' @ str_nat l, m_wins = w,
                    m_losses = l, m_category_results = res\<rparr> # ms'"
      using Cons.prems(1) it tm ne tl ms' by simp
    show ?thesis
    proof (cases "r \<in> set ms'")
      case True
      from Cons.IH [OF ms' True] show ?thesis by auto
    next
      case False
      then have "r = \<lparr>m_team = tm, m_score = str_nat w @ ''-'' @ str_nat l, m_wins = w,
                    m_losses = l, m_category_results = res\<rparr>"
        using Cons.prems(2) ms by simp
      then show ?thesis
        using it tm ne tl by auto
    qed
  qed
qed

lemma matchup_loop_teams:
  "matchup_loop sid ss lk cats ats = Inr ms \<Longrightarrow>
     map m_team ms =
       map (\<lambda>tid. the (lk tid)) (filter (\<lambda>tid. tid \<noteq> sid \<and> lk tid \<noteq> None) (map fst ats))"
proof (induction ats arbitrary: ms)
  case Nil
  then show ?case by simp
next
  case (Cons it rest)
  obtain tid opp where it: "it = (tid, opp)" by (cases it)
  show ?case
  proof (cases "tid = sid \<or> lk tid = None")
    case True
    then have "matchup_loop sid ss lk cats rest = Inr ms"
      using Cons.prems it by (auto split: if_splits)
    from Cons.IH [OF this] True it show ?thesis by auto
  next
    case False
    then obtain tm where tm: "lk tid = Some tm" and ne: "tid \<noteq> sid" by auto
    obtain w l res where tl: "tally_loop ss opp cats (0, 0, []) = Inr (w, l, res)"
      using Cons.prems it tm ne
      by (cases "tally_loop ss opp cats (0, 0, [])") auto
    obtain ms' where ms': "matchup_loop sid ss lk cats rest = Inr ms'"
      using Cons.prems it tm ne tl
      by (cases "matchup_loop sid ss lk cats rest") auto
    have ms: "ms = \<lparr>m_team = tm, m_score = str_nat w @ ''-'' @ str_nat l, m_wins = w,
                    m_losses = l, m_category_results = res\<rparr> # ms'"
      using Cons.prems it tm ne tl ms' by simp
    show ?thesis
      using Cons.IH [OF ms'] ms it tm ne by simp
  qed
qed

lemma stable_sort_desc: "sorted (rev (map f (stable_sort f True xs)))"
  by (simp add: stable_sort_def rev_map)

lemma stable_sort_stable:
  "filter (\<lambda>y. f y = k) (stable_sort f rv xs) = filter (\<lambda>y. f y = k) xs"
proof (cases rv)
  case True
  have "filter (\<lambda>y. f y = k) (rev (sort_key f (rev xs)))
          = rev (filter (\<lambda>y. f y = k) (sort_key f (rev xs)))"
    by (simp only: rev_filter)
  also have "\<dots> = rev (filter (\<lambda>y. f y = k) (rev xs))"
    by (simp only: sort_key_stable)
  also have "\<dots> = filter (\<lambda>y. f y = k) xs"
    by (simp only: rev_filter rev_rev_ident)
  finally show ?thesis using True by (simp add: stable_sort_def)
next
  case False
  then show ?thesis by (simp add: stable_sort_def sort_key_stable)
qed

text \<open>
  C7. For every opponent in the results, wins, losses and ties together are at most the
  number of categories. A category is left out of the tally exactly when its id is
  empty or the selected team or the opponent has the value \<open>None\<close> for it, and the sum
  equals the number of categories exactly when no category is left out.
\<close>

theorem tally_bounded_by_categories:
  assumes "compare_head_to_head st ss all_teams ats cats = Inr results"
    and "r \<in> set results"
  shows "m_wins r + m_losses r + ties r \<le> length cats
       \<and> (\<exists>tid opp. (tid, opp) \<in> set ats \<and> tid \<noteq> team_id st
             \<and> team_lookup all_teams tid = Some (m_team r)
             \<and> (\<forall>ci. category_outcome ss opp ci = Inr None \<longleftrightarrow>
                   c_id ci = [] \<or> extract_stat_value ss (c_id ci) (Some (c_name ci)) = None
                   \<or> extract_stat_value opp (c_id ci) (Some (c_name ci)) = None)
             \<and> (m_wins r + m_losses r + ties r = length cats \<longleftrightarrow>
                   (\<forall>ci \<in> set cats. c_id ci \<noteq> []
                      \<and> extract_stat_value ss (c_id ci) (Some (c_name ci)) \<noteq> None
                      \<and> extract_stat_value opp (c_id ci) (Some (c_name ci)) \<noteq> None)))"
proof -
  obtain ms where ms: "matchup_loop (team_id st) ss (team_lookup all_teams) cats ats = Inr ms"
    and res: "results = stable_sort m_wins True ms"
    using assms(1)
    by (cases "matchup_loop (team_id st) ss (team_lookup all_teams) cats ats")
       (auto simp: compare_head_to_head_def)
  have "set results = set ms"
    using mset_eq_setD [of results ms] res by (simp add: mset_stable_sort)
  then have "r \<in> set ms" using assms(2) by simp
  from matchup_loop_member [OF ms this] obtain tid opp where
    mem: "(tid, opp) \<in> set ats" and ne: "tid \<noteq> team_id st"
    and lk: "team_lookup all_teams tid = Some (m_team r)"
    and tl: "tally_loop ss opp cats (0, 0, []) = Inr (m_wins r, m_losses r, m_category_results r)"
    by blast
  have total: "m_wins r + m_losses r + ties r =
               length (filter (\<lambda>ci. category_outcome ss opp ci \<noteq> Inr None) cats)"
    using tally_loop_count [OF tl] by (simp add: ties_def)
  have le: "m_wins r + m_losses r + ties r \<le> length cats"
    by (simp only: total length_filter_le)
  have eq: "m_wins r + m_losses r + ties r = length cats \<longleftrightarrow>
              (\<forall>ci \<in> set cats. c_id ci \<noteq> []
                 \<and> extract_stat_value ss (c_id ci) (Some (c_name ci)) \<noteq> None
                 \<and> extract_stat_value opp (c_id ci) (Some (c_name ci)) \<noteq> None)"
    by (simp only: total length_filter_eq_conv category_outcome_skip_iff de_Morgan_disj)
  have skip: "\<forall>ci. category_outcome ss opp ci = Inr None \<longleftrightarrow>
                   c_id ci = [] \<or> extract_stat_value ss (c_id ci) (Some (c_name ci)) = None
                   \<or> extract_stat_value opp (c_id ci) (Some (c_name ci)) = None"
    by (intro allI) (rule category_outcome_skip_iff)
  show ?thesis
    by (intro conjI exI [of _ tid] exI [of _ opp]) (rule le mem ne lk skip eq)+
qed

theorem tally_bounded_by_categories_witness:
  "compare_head_to_head mine (to_pts (VNum 10) (VNum 100)) league4
      [(1, to_pts (VNum 10) (VNum 100)), (2, to_pts (VNum 12) (VStr ''/''))] cats2
     = Inr [\<lparr>m_team = \<lparr>team_id = 2, team_name = ''B''\<rparr>, m_score = ''1-0'', m_wins = 1,
             m_losses = 0, m_category_results = [(''TO'', W)]\<rparr>]
   \<and> m_wins \<lparr>m_team = \<lparr>team_id = 2, team_name = ''B''\<rparr>, m_score = ''1-0'', m_wins = 1,
             m_losses = 0, m_category_results = [(''TO'', W)]\<rparr>
       + m_losses \<lparr>m_team = \<lparr>team_id = 2, team_name = ''B''\<rparr>, m_score = ''1-0'', m_wins = 1,
             m_losses = 0, m_category_results = [(''TO'', W)]\<rparr>
       + ties \<lparr>m_team = \<lparr>team_id = 2, team_name = ''B''\<rparr>, m_score = ''1-0'', m_wins = 1,
             m_losses = 0, m_category_results = [(''TO'', W)]\<rparr>
       \<le> length cats2"
proof -
  let ?r = "\<lparr>m_team = \<lparr>team_id = 2, team_name = ''B''\<rparr>, m_score = ''1-0'', m_wins = 1,
             m_losses = 0, m_category_results = [(''TO'', W)]\<rparr>"
  have run: "compare_head_to_head mine (to_pts (VNum 10) (VNum 100)) league4
      [(1, to_pts (VNum 10) (VNum 100)), (2, to_pts (VNum 12) (VStr ''/''))] cats2 = Inr [?r]"
    by code_simp
  have mem: "?r \<in> set [?r]" by simp
  have "m_wins ?r + m_losses ?r + ties ?r \<le> length cats2"
    using tally_bounded_by_categories [OF run mem] by (rule conjunct1)
  with run show ?thesis by (rule conjI)
qed

text \<open>With an empty category id both teams have a value, none of them \<open>None\<close>, and
  the category is still left out: the sum is 0 for one category.\<close>

theorem empty_id_category_skipped:
  "compare_head_to_head \<lparr>team_id = 1, team_name = ''Mine''\<rparr>
      (one_stat '''' ''PTS'' (VNum 10)) league4
      [(1, one_stat '''' ''PTS'' (VNum 10)), (2, one_stat '''' ''PTS'' (VNum 8))]
      [\<lparr>c_id = '''', c_name = ''PTS'', c_index = 0\<rparr>]
     = Inr [\<lparr>m_team = \<lparr>team_id = 2, team_name = ''B''\<rparr>, m_score = ''0-0'', m_wins = 0,
             m_losses = 0, m_category_results = []\<rparr>]
   \<and> extract_stat_value (one_stat '''' ''PTS'' (VNum 10)) '''' (Some ''PTS'') = Some (VNum 10)
   \<and> extract_stat_value (one_stat '''' ''PTS'' (VNum 8)) '''' (Some ''PTS'') = Some (VNum 8)
   \<and> m_wins \<lparr>m_team = \<lparr>team_id = 2, team_name = ''B''\<rparr>, m_score = ''0-0'', m_wins = 0,
             m_losses = 0, m_category_results = []\<rparr>
       + m_losses \<lparr>m_team = \<lparr>team_id = 2, team_name = ''B''\<rparr>, m_score = ''0-0'', m_wins = 0,
             m_losses = 0, m_category_results = []\<rparr>
       + ties \<lparr>m_team = \<lparr>team_id = 2, team_name = ''B''\<rparr>, m_score = ''0-0'', m_wins = 0,
             m_losses = 0, m_category_results = []\<rparr>
       < length [\<lparr>c_id = '''', c_name = ''PTS'', c_index = 0\<rparr>]"
proof -
  have "compare_head_to_head \<lparr>team_id = 1, team_name = ''Mine''\<rparr>
      (one_stat '''' ''PTS'' (VNum 10)) league4
      [(1, one_stat '''' ''PTS'' (VNum 10)), (2, one_stat '''' ''PTS'' (VNum 8))]
      [\<lparr>c_id = '''', c_name = ''PTS'', c_index = 0\<rparr>]
     = Inr [\<lparr>m_team = \<lparr>team_id = 2, team_name = ''B''\<rparr>, m_score = ''0-0'', m_wins = 0,
             m_losses = 0, m_category_results = []\<rparr>]"
    by code_simp
  moreover have
    "extract_stat_value (one_stat '''' ''PTS'' (VNum 10)) '''' (Some ''PTS'') = Some (VNum 10)"
    by code_simp
  moreover have
    "extract_stat_value (one_stat '''' ''PTS'' (VNum 8)) '''' (Some ''PTS'') = Some (VNum 8)"
    by code_simp
  ultimately show ?thesis by (simp add: ties_def)
qed

lemma category_outcome_total:
  assumes "case extract_stat_value ss (c_id ci) (Some (c_name ci)) of
             None \<Rightarrow> True | Some v \<Rightarrow> is_float v"
    and "case extract_stat_value opp (c_id ci) (Some (c_name ci)) of
             None \<Rightarrow> True | Some v \<Rightarrow> is_float v"
  shows "\<exists>oc. category_outcome ss opp ci = Inr oc"
proof (cases "extract_stat_value ss (c_id ci) (Some (c_name ci))")
  case None
  then show ?thesis by (simp add: category_outcome_def Let_def)
next
  case sv: (Some a)
  show ?thesis
  proof (cases "extract_stat_value opp (c_id ci) (Some (c_name ci))")
    case None
    with sv show ?thesis by (simp add: category_outcome_def Let_def)
  next
    case ov: (Some b)
    have "is_float a" "is_float b"
      using assms sv ov by simp_all
    with sv ov show ?thesis
      by (auto simp: category_outcome_def Let_def py_gt_def py_lt_def split: bool.splits)
  qed
qed

lemma tally_loop_total:
  "\<forall>ci \<in> set cats. \<exists>oc. category_outcome ss opp ci = Inr oc \<Longrightarrow>
     \<exists>res. tally_loop ss opp cats acc = Inr res"
proof (induction cats arbitrary: acc)
  case Nil
  show ?case by (rule exI [of _ acc]) simp
next
  case (Cons ci cats)
  obtain w l rs where acc: "acc = (w, l, rs)" by (cases acc) auto
  obtain oc where oc: "category_outcome ss opp ci = Inr oc"
    using Cons.prems by auto
  have ih: "\<exists>res. tally_loop ss opp cats acc' = Inr res" for acc'
    using Cons.IH Cons.prems by simp
  show ?case
  proof (cases oc)
    case None
    with oc acc ih show ?thesis by simp
  next
    case (Some x)
    with oc acc ih show ?thesis by (cases x) simp_all
  qed
qed

lemma matchup_loop_total:
  "\<forall>it \<in> set ats. \<exists>res. tally_loop ss (snd it) cats (0, 0, []) = Inr res \<Longrightarrow>
     \<exists>ms. matchup_loop sid ss lk cats ats = Inr ms"
proof (induction ats)
  case Nil
  show ?case by simp
next
  case (Cons it rest)
  obtain tid opp where it: "it = (tid, opp)" by (cases it)
  obtain w l rs where tl: "tally_loop ss opp cats (0, 0, []) = Inr (w, l, rs)"
    using Cons.prems it by (metis list.set_intros(1) snd_conv surj_pair)
  obtain ms where ms: "matchup_loop sid ss lk cats rest = Inr ms"
    using Cons.IH Cons.prems by auto
  show ?case
    using it tl ms by (cases "lk tid") simp_all
qed

text \<open>
  C8. Whenever head-to-head scoring returns, its results are, up to their order, one
  result for every item of \<open>all_team_stats\<close> whose team is not the selected one and is in
  the roster; a roster member without stats for the week has no result. The results
  are in descending order of wins, and results with the same number of wins keep the
  order of the items. Scoring returns whenever every value it reads is a float or
  \<open>None\<close>.
\<close>

theorem head_to_head_results:
  "(\<forall>results. compare_head_to_head st ss all_teams ats cats = Inr results \<longrightarrow>
      (\<exists>ms. map m_team ms =
               map (\<lambda>tid. the (team_lookup all_teams tid))
                 (filter (\<lambda>tid. tid \<noteq> team_id st \<and> team_lookup all_teams tid \<noteq> None)
                    (map fst ats))
           \<and> mset results = mset ms
           \<and> sorted (rev (map m_wins results))
           \<and> (\<forall>k. filter (\<lambda>r. m_wins r = k) results = filter (\<lambda>r. m_wins r = k) ms)))
   \<and> ((\<forall>ci \<in> set cats. \<forall>stats \<in> set (ss # map snd ats).
          (case extract_stat_value stats (c_id ci) (Some (c_name ci)) of
             None \<Rightarrow> True | Some v \<Rightarrow> is_float v))
      \<longrightarrow> (\<exists>results. compare_head_to_head st ss all_teams ats cats = Inr results))"
proof (intro conjI allI impI)
  fix results
  assume run: "compare_head_to_head st ss all_teams ats cats = Inr results"
  obtain ms where ms: "matchup_loop (team_id st) ss (team_lookup all_teams) cats ats = Inr ms"
    and res: "results = stable_sort m_wins True ms"
    using run
    by (cases "matchup_loop (team_id st) ss (team_lookup all_teams) cats ats")
       (auto simp: compare_head_to_head_def)
  have a: "map m_team ms =
             map (\<lambda>tid. the (team_lookup all_teams tid))
               (filter (\<lambda>tid. tid \<noteq> team_id st \<and> team_lookup all_teams tid \<noteq> None)
                  (map fst ats))"
    by (rule matchup_loop_teams [OF ms])
  have b: "mset results = mset ms"
    by (simp only: res mset_stable_sort)
  have c: "sorted (rev (map m_wins results))"
    by (simp only: res stable_sort_desc)
  have d: "\<forall>k. filter (\<lambda>r. m_wins r = k) results = filter (\<lambda>r. m_wins r = k) ms"
    by (simp only: res stable_sort_stable simp_thms)
  show "\<exists>ms. map m_team ms =
               map (\<lambda>tid. the (team_lookup all_teams tid))
                 (filter (\<lambda>tid. tid \<noteq> team_id st \<and> team_lookup all_teams tid \<noteq> None)
                    (map fst ats))
           \<and> mset results = mset ms
           \<and> sorted (rev (map m_wins results))
           \<and> (\<forall>k. filter (\<lambda>r. m_wins r = k) results = filter (\<lambda>r. m_wins r = k) ms)"
    by (intro exI [of _ ms] conjI) (rule a b c d)+
next
  assume num: "\<forall>ci \<in> set cats. \<forall>stats \<in> set (ss # map snd ats).
          (case extract_stat_value stats (c_id ci) (Some (c_name ci)) of
             None \<Rightarrow> True | Some v \<Rightarrow> is_float v)"
  have "\<exists>res. tally_loop ss (snd it) cats (0, 0, []) = Inr res" if "it \<in> set ats" for it
  proof (rule tally_loop_total, rule ballI)
    fix ci assume ci: "ci \<in> set cats"
    have m: "snd it \<in> set (ss # map snd ats)" using that by simp
    have a: "case extract_stat_value ss (c_id ci) (Some (c_name ci)) of
               None \<Rightarrow> True | Some v \<Rightarrow> is_float v"
      using num ci by simp
    have b: "case extract_stat_value (snd it) (c_id ci) (Some (c_name ci)) of
               None \<Rightarrow> True | Some v \<Rightarrow> is_float v"
      using num ci m by blast
    show "\<exists>oc. category_outcome ss (snd it) ci = Inr oc"
      by (rule category_outcome_total [OF a b])
  qed
  then obtain ms where
    "matchup_loop (team_id st) ss (team_lookup all_teams) cats ats = Inr ms"
    using matchup_loop_total [of ats ss cats "team_id st" "team_lookup all_teams"] by blast
  then show "\<exists>results. compare_head_to_head st ss all_teams ats cats = Inr results"
    by (simp add: compare_head_to_head_def)
qed

theorem head_to_head_results_witness:
  "compare_head_to_head mine (to_pts (VNum 10) (VNum 100)) league4
      [(1, to_pts (VNum 10) (VNum 100)), (2, to_pts (VNum 8) (VNum 120)),
       (3, to_pts (VNum 12) (VNum 90)), (4, to_pts (VNum 10) (VNum 100))] cats2
     = Inr [\<lparr>m_team = \<lparr>team_id = 3, team_name = ''C''\<rparr>, m_score = ''2-0'', m_wins = 2,
             m_losses = 0, m_category_results = [(''TO'', W), (''PTS'', W)]\<rparr>,
            \<lparr>m_team = \<lparr>team_id = 2, team_name = ''B''\<rparr>, m_score = ''0-2'', m_wins = 0,
             m_losses = 2, m_category_results = [(''TO'', L), (''PTS'', L)]\<rparr>,
            \<lparr>m_team = \<lparr>team_id = 4, team_name = ''D''\<rparr>, m_score = ''0-0'', m_wins = 0,
             m_losses = 0, m_category_results = [(''TO'', T), (''PTS'', T)]\<rparr>]
   \<and> sorted (rev (map m_wins
        [\<lparr>m_team = \<lparr>team_id = 3, team_name = ''C''\<rparr>, m_score = ''2-0'', m_wins = 2,
             m_losses = 0, m_category_results = [(''TO'', W), (''PTS'', W)]\<rparr>,
            \<lparr>m_team = \<lparr>team_id = 2, team_name = ''B''\<rparr>, m_score = ''0-2'', m_wins = 0,
             m_losses = 2, m_category_results = [(''TO'', L), (''PTS'', L)]\<rparr>,
            \<lparr>m_team = \<lparr>team_id = 4, team_name = ''D''\<rparr>, m_score = ''0-0'', m_wins = 0,
             m_losses = 0, m_category_results = [(''TO'', T), (''PTS'', T)]\<rparr>]))
   \<and> (\<exists>results. compare_head_to_head mine (to_pts (VNum 10) (VNum 100)) league4
          [(1, to_pts (VNum 10) (VNum 100)), (2, to_pts (VNum 8) (VNum 120)),
           (3, to_pts (VNum 12) (VNum 90)), (4, to_pts (VNum 10) (VNum 100))] cats2
        = Inr results)"
proof -
  let ?ats = "[(1::int, to_pts (VNum 10) (VNum 100)), (2, to_pts (VNum 8) (VNum 120)),
       (3, to_pts (VNum 12) (VNum 90)), (4, to_pts (VNum 10) (VNum 100))]"
  let ?R = "[\<lparr>m_team = \<lparr>team_id = 3, team_name = ''C''\<rparr>, m_score = ''2-0'', m_wins = 2,
             m_losses = 0, m_category_results = [(''TO'', W), (''PTS'', W)]\<rparr>,
            \<lparr>m_team = \<lparr>team_id = 2, team_name = ''B''\<rparr>, m_score = ''0-2'', m_wins = 0,
             m_losses = 2, m_category_results = [(''TO'', L), (''PTS'', L)]\<rparr>,
            \<lparr>m_team = \<lparr>team_id = 4, team_name = ''D''\<rparr>, m_score = ''0-0'', m_wins = 0,
             m_losses = 0, m_category_results = [(''TO'', T), (''PTS'', T)]\<rparr>]"
  note inst = head_to_head_results [of mine "to_pts (VNum 10) (VNum 100)" league4 ?ats cats2]
  have run: "compare_head_to_head mine (to_pts (VNum 10) (VNum 100)) league4 ?ats cats2 = Inr ?R"
    by code_simp
  have num: "\<forall>ci \<in> set cats2. \<forall>stats \<in> set (to_pts (VNum 10) (VNum 100) # map snd ?ats).
          (case extract_stat_value stats (c_id ci) (Some (c_name ci)) of
             None \<Rightarrow> True | Some v \<Rightarrow> is_float v)"
    by code_simp
  have s: "sorted (rev (map m_wins ?R))"
    using inst [THEN conjunct1, THEN spec, THEN mp, OF run] by blast
  have e: "\<exists>results. compare_head_to_head mine (to_pts (VNum 10) (VNum 100)) league4 ?ats cats2
             = Inr results"
    using inst [THEN conjunct2, THEN mp, OF num] .
  show ?thesis
    by (intro conjI) (rule run s e)+
qed

text \<open>Team C is in the roster and is not the selected team, but it has no stats for
  the week: it has no result.\<close>

theorem roster_member_without_stats:
  "compare_head_to_head mine (to_pts (VNum 10) (VNum 100)) league4
      [(1, to_pts (VNum 10) (VNum 100)), (2, to_pts (VNum 12) (VNum 90))] cats2
     = Inr [\<lparr>m_team = \<lparr>team_id = 2, team_name = ''B''\<rparr>, m_score = ''2-0'', m_wins = 2,
             m_losses = 0, m_category_results = [(''TO'', W), (''PTS'', W)]\<rparr>]
   \<and> \<lparr>team_id = 3, team_name = ''C''\<rparr> \<in> set league4
   \<and> team_id \<lparr>team_id = 3, team_name = ''C''\<rparr> \<noteq> team_id mine
   \<and> \<lparr>team_id = 3, team_name = ''C''\<rparr>
       \<notin> set (map m_team [\<lparr>m_team = \<lparr>team_id = 2, team_name = ''B''\<rparr>, m_score = ''2-0'',
             m_wins = 2, m_losses = 0, m_category_results = [(''TO'', W), (''PTS'', W)]\<rparr>])"
proof -
  have "compare_head_to_head mine (to_pts (VNum 10) (VNum 100)) league4
      [(1, to_pts (VNum 10) (VNum 100)), (2, to_pts (VNum 12) (VNum 90))] cats2
     = Inr [\<lparr>m_team = \<lparr>team_id = 2, team_name = ''B''\<rparr>, m_score = ''2-0'', m_wins = 2,
             m_losses = 0, m_category_results = [(''TO'', W), (''PTS'', W)]\<rparr>]"
    by code_simp
  then show ?thesis by (simp add: league4_def mine_def)
qed

end
